theory Spec2Isabelle
  imports Main "HOL-Library.List_Lexorder" "HOL-Library.Multiset"
begin

section \<open>Strings\<close>

text \<open>
  A Python \<open>str\<close> is a sequence of Unicode code points; \<open>len\<close> counts code points.
  Code points are natural numbers here and a string is a list of them.
  \<open>py\<close> turns an ASCII literal into such a string.
\<close>

type_synonym codepoint = nat
type_synonym pystr = "codepoint list"

definition ord :: "char \<Rightarrow> codepoint" where
  "ord c = of_char c"

definition py :: "string \<Rightarrow> pystr" where
  "py s = map ord s"

text \<open>The number of bytes of a code point, and of a string, in UTF-8.\<close>

definition utf8_len :: "codepoint \<Rightarrow> nat" where
  "utf8_len c = (if c < 128 then 1 else if c < 2048 then 2 else if c < 65536 then 3 else 4)"

definition utf8_length :: "pystr \<Rightarrow> nat" where
  "utf8_length s = sum_list (map utf8_len s)"

section \<open>The filename sanitizer (\<open>IssuuScraper.sanitize_filename\<close>)\<close>

text \<open>
  The Unicode character database is consulted through \<open>unicodedata.normalize\<close>,
  \<open>unicodedata.combining\<close>, \<open>str.isprintable\<close> and the regular expression class
  \<open>\s\<close>. Its tables are not part of the repository: they are a parameter of the model.
\<close>

record ucd =
  normalize_NFKD :: "pystr \<Rightarrow> pystr"
  combining :: "codepoint \<Rightarrow> nat"
  isprintable :: "codepoint \<Rightarrow> bool"
  isspace :: "codepoint \<Rightarrow> bool"

text \<open>
  \<open>char_map\<close>, in the insertion order of the dictionary literal (the order in which
  \<open>char_map.items()\<close> is traversed). The keys \<open>"\<close>, \<open>\\<close>, \<open>`\<close> and the replacement
  \<open>'\<close> are given by their code points 34, 92, 96 and 39.
\<close>

definition char_map :: "(codepoint \<times> pystr) list" where
  "char_map =
    [(ord CHR ''<'', py ''(''),
     (ord CHR ''>'', py '')''),
     (ord CHR '':'', py ''-''),
     (34, [39]),
     (ord CHR ''/'', py ''-''),
     (92, py ''-''),
     (ord CHR ''|'', py ''-''),
     (ord CHR ''?'', []),
     (ord CHR ''*'', []),
     (ord CHR ''&'', py ''and''),
     (ord CHR ''#'', py ''No.''),
     (ord CHR ''%'', py ''pct''),
     (ord CHR ''{'', py ''(''),
     (ord CHR ''}'', py '')''),
     (ord CHR ''~'', py ''-''),
     (ord CHR ''+'', py ''plus''),
     (ord CHR ''@'', py ''at''),
     (ord CHR ''!'', []),
     (96, [39]),
     (ord CHR ''='', py ''-''),
     (ord CHR '';'', py '',''),
     (ord CHR ''['', py ''(''),
     (ord CHR '']'', py '')'')]"

text \<open>\<open>filename.replace(char, replacement)\<close> for a one-character \<open>char\<close>.\<close>

definition replace :: "codepoint \<Rightarrow> pystr \<Rightarrow> pystr \<Rightarrow> pystr" where
  "replace k r s = concat (map (\<lambda>c. if c = k then r else [c]) s)"

text \<open>The loop \<open>for char, replacement in char_map.items()\<close>.\<close>

fun replace_all :: "(codepoint \<times> pystr) list \<Rightarrow> pystr \<Rightarrow> pystr" where
  "replace_all [] s = s"
| "replace_all ((k, r) # m) s = replace_all m (replace k r s)"

text \<open>
  \<open>re.sub(P+, r, s)\<close> for a character class \<open>P\<close>: every maximal run of characters of
  the class becomes the single character \<open>r\<close>.
\<close>

function re_sub_runs :: "(codepoint \<Rightarrow> bool) \<Rightarrow> codepoint \<Rightarrow> pystr \<Rightarrow> pystr" where
  "re_sub_runs P r [] = []"
| "re_sub_runs P r (c # cs) =
     (if P c then r # re_sub_runs P r (dropWhile P cs) else c # re_sub_runs P r cs)"
  by pat_completeness auto
termination
  by (relation "measure (\<lambda>(P, r, s). length s)")
     (auto simp: less_Suc_eq_le length_dropWhile_le)

text \<open>\<open>s.strip(chars)\<close>.\<close>

definition strip :: "codepoint set \<Rightarrow> pystr \<Rightarrow> pystr" where
  "strip chars s = rev (dropWhile (\<lambda>c. c \<in> chars) (rev (dropWhile (\<lambda>c. c \<in> chars) s)))"

text \<open>\<open>s.rfind(c)\<close>: the last index of \<open>c\<close>, or \<open>-1\<close>.\<close>

fun rfind_from :: "int \<Rightarrow> codepoint \<Rightarrow> pystr \<Rightarrow> int" where
  "rfind_from i c [] = -1"
| "rfind_from i c (x # xs) =
     (let j = rfind_from (i + 1) c xs in if j \<noteq> -1 then j else if x = c then i else -1)"

definition rfind :: "pystr \<Rightarrow> codepoint \<Rightarrow> int" where
  "rfind s c = rfind_from 0 c s"

text \<open>
  \<open>os.path.splitext\<close> (\<open>genericpath._splitext\<close> with separator \<open>/\<close>): the extension
  starts at the last dot after the last separator, unless only dots precede it in the
  last path component.
\<close>

definition splitext :: "pystr \<Rightarrow> pystr \<times> pystr" where
  "splitext p =
     (let sepIndex = rfind p (ord CHR ''/'');
          dotIndex = rfind p (ord CHR ''.'')
      in if dotIndex > sepIndex \<and>
            (\<exists>c \<in> set (take (nat (dotIndex - (sepIndex + 1))) (drop (nat (sepIndex + 1)) p)).
               c \<noteq> ord CHR ''.'')
         then (take (nat dotIndex) p, drop (nat dotIndex) p)
         else (p, []))"

text \<open>The slice \<open>s[:k]\<close>; a negative \<open>k\<close> counts from the end.\<close>

definition slice_to :: "pystr \<Rightarrow> int \<Rightarrow> pystr" where
  "slice_to s k = (if 0 \<le> k then take (nat k) s else take (nat (int (length s) + k)) s)"

text \<open>Step 6 of the sanitizer: the length limit.\<close>

definition limit_length :: "pystr \<Rightarrow> pystr" where
  "limit_length filename =
     (if length filename > 255
      then (let (name_part, ext_part) = splitext filename
            in slice_to name_part (255 - int (length ext_part)) @ ext_part)
      else filename)"

text \<open>Steps 1 to 5: everything before the length limit.\<close>

definition clean :: "ucd \<Rightarrow> pystr \<Rightarrow> pystr" where
  "clean U filename =
     (let filename = normalize_NFKD U filename;
          filename = filter (\<lambda>c. combining U c = 0) filename;
          filename = replace_all char_map filename;
          filename = filter (isprintable U) filename;
          filename = re_sub_runs (isspace U) (ord CHR '' '') filename;
          filename = re_sub_runs (\<lambda>c. c = ord CHR ''-'') (ord CHR ''-'') filename
      in strip {ord CHR '' '', ord CHR ''-''} filename)"

definition sanitize_filename :: "ucd \<Rightarrow> pystr \<Rightarrow> pystr" where
  "sanitize_filename U filename =
     (let filename = limit_length (clean U filename)
      in if filename = [] then py ''unnamed_document'' else filename)"

text \<open>
  The part of the Unicode tables that the evaluations below use: ASCII, where
  normalisation changes nothing, no character is a combining mark, the printable
  characters are U+0020 to U+007E and the white space is U+0009 to U+000D, U+001C to
  U+001F and U+0020; and the ideograph U+4E2D, which is printable, is its own
  normal form, is no combining mark and no white space.
\<close>

definition ucd_sample :: ucd where
  "ucd_sample =
     \<lparr> normalize_NFKD = (\<lambda>s. s),
       combining = (\<lambda>c. 0),
       isprintable = (\<lambda>c. (32 \<le> c \<and> c \<le> 126) \<or> c = 20013),
       isspace = (\<lambda>c. (9 \<le> c \<and> c \<le> 13) \<or> (28 \<le> c \<and> c \<le> 32)) \<rparr>"

section \<open>The artifact assembler (\<open>IssuuScraper.create_pdf\<close>)\<close>

text \<open>The decimal digits of a natural number (\<open>str(n)\<close>).\<close>

function digits :: "nat \<Rightarrow> pystr" where
  "digits n = (if n < 10 then [48 + n] else digits (n div 10) @ [48 + n mod 10])"
  by pat_completeness auto
termination
  by (relation "measure (\<lambda>n. n)") auto

declare digits.simps [simp del]

text \<open>
  The format specification \<open>03d\<close>: the digits, padded with zeros on the left to a
  width of three; the sign of a negative number is part of the width.
\<close>

definition zfill :: "nat \<Rightarrow> pystr \<Rightarrow> pystr" where
  "zfill w s = replicate (w - length s) (ord CHR ''0'') @ s"

definition format_03d :: "int \<Rightarrow> pystr" where
  "format_03d n =
     (if n < 0 then ord CHR ''-'' # zfill 2 (digits (nat (- n))) else zfill 3 (digits (nat n)))"

text \<open>The name \<open>page_{page_num:03d}.jpg\<close> of a page image.\<close>

definition page_file :: "int \<Rightarrow> pystr" where
  "page_file page_num = py ''page_'' @ format_03d page_num @ py ''.jpg''"

definition endswith :: "pystr \<Rightarrow> pystr \<Rightarrow> bool" where
  "endswith s suffix = (length suffix \<le> length s \<and> drop (length s - length suffix) s = suffix)"

text \<open>\<open>os.path.join(a, b)\<close> (POSIX).\<close>

definition path_join :: "pystr \<Rightarrow> pystr \<Rightarrow> pystr" where
  "path_join a b =
     (if b \<noteq> [] \<and> hd b = ord CHR ''/'' then b
      else if a = [] \<or> last a = ord CHR ''/'' then a @ b
      else a @ [ord CHR ''/''] @ b)"

text \<open>
  \<open>create_pdf\<close>. \<open>listing\<close> is what \<open>os.listdir(image_folder)\<close> returns, in whatever
  order; \<open>convert_ok\<close> tells whether opening the output file and \<open>img2pdf.convert\<close>
  succeed. The result is the sequence of image files that make the pages of the PDF,
  or \<open>None\<close> where the method returns \<open>False\<close>. Python compares strings code point by
  code point, which is the lexicographic order of lists.
\<close>

definition create_pdf :: "pystr \<Rightarrow> pystr list \<Rightarrow> bool \<Rightarrow> pystr list option" where
  "create_pdf image_folder listing convert_ok =
     (let image_files = sort (map (path_join image_folder)
                                  (filter (\<lambda>f. endswith f (py ''.jpg'')) listing))
      in if image_files = [] then None
         else if convert_ok then Some image_files else None)"

section \<open>The document resolver (\<open>IssuuScraper.get_document_data\<close>)\<close>

text \<open>
  A key of the JSON object \<open>document\<close>: missing, \<open>null\<close>, or a value. The identifiers,
  the title and the date are taken to be strings and the page count an integer where
  they are present.
\<close>

datatype 'a field = Absent | Null | Val 'a

record document =
  publicationId :: "pystr field"
  pageCount :: "int field"
  doc_title :: "pystr field"
  revisionId :: "pystr field"
  publishDate :: "pystr field"
  other_keys :: bool

text \<open>
  What the request for the publication's page gives: a transport or HTTP error, a
  page without the \<open>initial-data\<close> script or its \<open>data-json\<close> attribute, JSON that does
  not parse or is no object, JSON without a \<open>document\<close> object, or the \<open>document\<close>
  object.
\<close>

datatype response = TransportError | NoInitialData | BadJson | NoDocument | Document document

text \<open>The dictionary that \<open>get_document_data\<close> returns; \<open>None\<close> values are \<open>None\<close>.\<close>

record doc_data =
  publication_id :: "pystr option"
  page_count :: "int option"
  title :: "pystr option"
  revision_id :: "pystr option"
  originalPublishDateInISOString :: "pystr option"

text \<open>\<open>dict.get(key)\<close> and \<open>dict.get(key, default)\<close>.\<close>

definition dict_get :: "'a field \<Rightarrow> 'a option" where
  "dict_get f = (case f of Absent \<Rightarrow> None | Null \<Rightarrow> None | Val v \<Rightarrow> Some v)"

definition dict_get_default :: "'a field \<Rightarrow> 'a \<Rightarrow> 'a option" where
  "dict_get_default f d = (case f of Absent \<Rightarrow> Some d | Null \<Rightarrow> None | Val v \<Rightarrow> Some v)"

text \<open>The truth value of the dictionary: an empty dictionary is false.\<close>

definition dict_nonempty :: "document \<Rightarrow> bool" where
  "dict_nonempty d =
     (publicationId d \<noteq> Absent \<or> pageCount d \<noteq> Absent \<or> doc_title d \<noteq> Absent \<or>
      revisionId d \<noteq> Absent \<or> publishDate d \<noteq> Absent \<or> other_keys d)"

text \<open>Every exception inside \<open>get_document_data\<close> is caught and becomes \<open>None\<close>.\<close>

definition get_document_data :: "response \<Rightarrow> doc_data option" where
  "get_document_data r =
     (case r of
        Document d \<Rightarrow>
          if dict_nonempty d
          then Some \<lparr> publication_id = dict_get (publicationId d),
                      page_count = dict_get_default (pageCount d) 0,
                      title = dict_get (doc_title d),
                      revision_id = dict_get (revisionId d),
                      originalPublishDateInISOString = dict_get (publishDate d) \<rparr>
          else None
      | _ \<Rightarrow> None)"

section \<open>Fetching the pages (\<open>IssuuScraper.scrape_publication\<close>)\<close>

text \<open>
  \<open>as_completed(futures)\<close> yields every submitted future once, in the order of
  completion, which the scheduler decides. A schedule is a list of choices: each picks
  one of the futures still pending.
\<close>

function as_completed :: "nat list \<Rightarrow> 'a list \<Rightarrow> 'a list" where
  "as_completed ks [] = []"
| "as_completed [] (x # xs) = x # xs"
| "as_completed (k # ks) (x # xs) =
     (let i = k mod length (x # xs)
      in (x # xs) ! i # as_completed ks (take i (x # xs) @ drop (Suc i) (x # xs)))"
  by pat_completeness auto
termination
  by (relation "measure (\<lambda>(ks, xs). length xs)") auto

text \<open>\<open>enumerate(xs, start)\<close>.\<close>

fun enumerate_from :: "int \<Rightarrow> 'a list \<Rightarrow> (int \<times> 'a) list" where
  "enumerate_from i [] = []"
| "enumerate_from i (x # xs) = (i, x) # enumerate_from (i + 1) xs"

text \<open>
  The loop over the completed futures. \<open>ok p\<close> is the result of the future of page
  \<open>p\<close>. The pair is \<open>(successful_downloads, failed_pages)\<close>; the number appended to
  \<open>failed_pages\<close> is the loop counter \<open>i\<close> of \<open>enumerate\<close>.
\<close>

fun first_pass :: "(int \<Rightarrow> bool) \<Rightarrow> (int \<times> int) list \<Rightarrow> int \<times> int list \<Rightarrow> int \<times> int list" where
  "first_pass ok [] acc = acc"
| "first_pass ok ((i, p) # rest) (successful_downloads, failed_pages) =
     (if ok p then first_pass ok rest (successful_downloads + 1, failed_pages)
      else first_pass ok rest (successful_downloads, failed_pages @ [i]))"

text \<open>The loop \<open>for page_num in failed_pages\<close> of the second pass.\<close>

fun retry_pass :: "(int \<Rightarrow> bool) \<Rightarrow> int list \<Rightarrow> int \<Rightarrow> int" where
  "retry_pass ok [] successful_downloads = successful_downloads"
| "retry_pass ok (page_num # rest) successful_downloads =
     retry_pass ok rest (if ok page_num then successful_downloads + 1 else successful_downloads)"

text \<open>A download that succeeds saves its image under the page's name.\<close>

definition save_image :: "pystr \<Rightarrow> pystr list \<Rightarrow> pystr list" where
  "save_image name dir = (if name \<in> set dir then dir else dir @ [name])"

definition save_images :: "(int \<Rightarrow> bool) \<Rightarrow> int list \<Rightarrow> pystr list \<Rightarrow> pystr list" where
  "save_images ok pages dir = foldl (\<lambda>d p. if ok p then save_image (page_file p) d else d) dir pages"

text \<open>
  What the world does during one call of \<open>scrape_publication\<close>: the answer to the
  request for the publication's page, whether the output directories can be made, the
  order in which the page fetches complete, the result of \<open>download_page_image\<close> for
  each page in the pool and in the second pass, the files already in the image
  directory, and whether the PDF can be written.
\<close>

record scrape_world =
  response :: response
  makedirs_ok :: bool
  schedule :: "nat list"
  pool_ok :: "int \<Rightarrow> bool"
  second_ok :: "int \<Rightarrow> bool"
  old_images :: "pystr list"
  convert_ok :: bool

text \<open>
  What a call of \<open>scrape_publication\<close> does: the value returned, the pages for which a
  fetch was submitted to the pool, the pages fetched in the second pass (in order), the
  two counters where the method stopped, the image directory, and the PDF (its path and
  its pages) if one was written.
\<close>

record scrape_result =
  returned :: bool
  submitted :: "int list"
  retried :: "int list"
  successful_downloads :: int
  failed_pages :: "int list"
  images :: "pystr list"
  pdf :: "(pystr \<times> pystr list) option"

definition not_fetched :: "scrape_world \<Rightarrow> scrape_result" where
  "not_fetched w =
     \<lparr> returned = False, submitted = [], retried = [], successful_downloads = 0,
       failed_pages = [], images = old_images w, pdf = None \<rparr>"

text \<open>
  \<open>scrape_publication\<close> without a progress callback. A title that is \<open>None\<close> makes
  \<open>sanitize_filename\<close> raise, a page count that is \<open>None\<close> makes \<open>range\<close> raise; the
  method catches every exception and returns \<open>False\<close>.
\<close>

definition scrape_publication :: "ucd \<Rightarrow> pystr \<Rightarrow> scrape_world \<Rightarrow> scrape_result" where
  "scrape_publication U handle w =
     (case get_document_data (response w) of
        None \<Rightarrow> not_fetched w
      | Some doc_data \<Rightarrow>
          (case publication_id doc_data of
             None \<Rightarrow> not_fetched w
           | Some pub_id \<Rightarrow>
               if pub_id = [] then not_fetched w
               else
                 (case title doc_data of
                    None \<Rightarrow> not_fetched w
                  | Some original_title \<Rightarrow>
                      let sanitized_title = sanitize_filename U original_title;
                          base_dir = py ''downloads/'' @ handle @ py ''/'' @ pub_id;
                          images_dir = base_dir @ py ''/images''
                      in if \<not> makedirs_ok w then not_fetched w
                         else
                           (case page_count doc_data of
                              None \<Rightarrow> not_fetched w
                            | Some n \<Rightarrow>
                                let pages = [1..n];
                                    completed = as_completed (schedule w) pages;
                                    (successful1, failed) =
                                       first_pass (pool_ok w) (enumerate_from 1 completed) (0, []);
                                    images1 = save_images (pool_ok w) pages (old_images w)
                                in if successful1 = 0
                                   then \<lparr> returned = False, submitted = pages, retried = [],
                                          successful_downloads = successful1,
                                          failed_pages = failed, images = images1, pdf = None \<rparr>
                                   else
                                     let successful2 = retry_pass (second_ok w) failed successful1;
                                         images2 = save_images (second_ok w) failed images1;
                                         pdf_path = base_dir @ py ''/'' @ sanitized_title @ py ''.pdf'';
                                         created =
                                           (if successful2 > 0
                                            then create_pdf images_dir images2 (convert_ok w)
                                            else None)
                                     in \<lparr> returned = (created \<noteq> None), submitted = pages,
                                          retried = failed, successful_downloads = successful2,
                                          failed_pages = failed, images = images2,
                                          pdf = map_option (\<lambda>ps. (pdf_path, ps)) created \<rparr>))))"

section \<open>The ledger of processed publications (\<open>scraper_worker\<close>)\<close>

text \<open>An element of \<open>new_books\<close>, which is also the metadata of a ledger record.\<close>

record book_info =
  book_title :: "pystr option"
  book_handle :: pystr
  publish_date :: pystr
  book_page_count :: "int option"
  book_publication_id :: "pystr option"
  drive_link :: "pystr option"

record ledger_entry =
  entry_publication_id :: "pystr option"
  metadata :: book_info
  processed_at :: pystr

text \<open>
  The file \<open>data/processed_publications.json\<close>: missing; unreadable (\<open>open\<close> or the
  decoding of its bytes raises another exception than \<open>FileNotFoundError\<close> and
  \<open>JSONDecodeError\<close>); text that is no JSON; JSON of another shape than an object with
  the list \<open>processed_publications\<close> of records; or that list.
\<close>

datatype ledger_file = FileNotFound | Unreadable | Unparseable | WrongShape | Ledger "ledger_entry list"

text \<open>The records that the file holds.\<close>

definition entries :: "ledger_file \<Rightarrow> ledger_entry list" where
  "entries f = (case f of Ledger es \<Rightarrow> es | _ \<Rightarrow> [])"

text \<open>
  What an attempt to write the file does (\<open>os.makedirs\<close>, \<open>open(..., 'w')\<close> and
  \<open>json.dump\<close>, none of them guarded): it writes the file; or it raises before the file
  is opened and leaves it as it was; or it raises after the file is opened, which
  leaves it truncated, no JSON any more. The pair is whether the write returned, and
  the file afterwards.
\<close>

datatype write_result = Written | Refused | Broken

definition write_ledger :: "write_result \<Rightarrow> ledger_entry list \<Rightarrow> ledger_file \<Rightarrow> bool \<times> ledger_file" where
  "write_ledger wr es f =
     (case wr of Written \<Rightarrow> (True, Ledger es) | Refused \<Rightarrow> (False, f) | Broken \<Rightarrow> (False, Unparseable))"

text \<open>
  \<open>load_processed_publications\<close>: what the caller gets and the file afterwards. Only
  \<open>FileNotFoundError\<close> and \<open>JSONDecodeError\<close> are caught: a missing file and a file
  that is no JSON are written anew with an empty list, and the exception of a write
  that raises there leaves the function; so does the exception of an unreadable
  file. JSON of another shape is returned as it is, and the caller's subscript
  raises. \<open>wr\<close> is what the write does, if there is one.
\<close>

datatype loaded = LoadRaised | OtherJson | Records "ledger_entry list"

definition load_processed_publications :: "write_result \<Rightarrow> ledger_file \<Rightarrow> loaded \<times> ledger_file" where
  "load_processed_publications wr f =
     (case f of
        FileNotFound \<Rightarrow>
          (case write_ledger wr [] f of (True, f') \<Rightarrow> (Records [], f') | (False, f') \<Rightarrow> (LoadRaised, f'))
      | Unreadable \<Rightarrow> (LoadRaised, Unreadable)
      | Unparseable \<Rightarrow>
          (case write_ledger wr [] f of (True, f') \<Rightarrow> (Records [], f') | (False, f') \<Rightarrow> (LoadRaised, f'))
      | WrongShape \<Rightarrow> (OtherJson, WrongShape)
      | Ledger es \<Rightarrow> (Records es, Ledger es))"

text \<open>
  \<open>save_processed_publication\<close>: whether it returned (\<open>False\<close>: an exception left it)
  and the file afterwards. \<open>now\<close> is \<open>datetime.now().isoformat()\<close>, \<open>wr_load\<close> is what
  a write inside the load does and \<open>wr\<close> what the write of the extended list does.
\<close>

definition save_processed_publication ::
    "pystr option \<Rightarrow> book_info \<Rightarrow> pystr \<Rightarrow> write_result \<Rightarrow> write_result \<Rightarrow> ledger_file
       \<Rightarrow> bool \<times> ledger_file" where
  "save_processed_publication pub_id meta now wr_load wr f =
     (case load_processed_publications wr_load f of
        (Records es, f') \<Rightarrow>
          write_ledger wr (es @ [\<lparr> entry_publication_id = pub_id, metadata = meta,
                                    processed_at = now \<rparr>]) f'
      | (_, f') \<Rightarrow> (False, f'))"

text \<open>\<open>is_publication_processed\<close>: the answer (\<open>None\<close>: an exception left it) and the file afterwards.\<close>

definition is_publication_processed ::
    "pystr option \<Rightarrow> write_result \<Rightarrow> ledger_file \<Rightarrow> bool option \<times> ledger_file" where
  "is_publication_processed pub_id wr_load f =
     (case load_processed_publications wr_load f of
        (Records es, f') \<Rightarrow> (Some (\<exists>pub \<in> set es. entry_publication_id pub = pub_id), f')
      | (_, f') \<Rightarrow> (None, f'))"

section \<open>The workflow (\<open>scraper_worker.main\<close>)\<close>

text \<open>
  The exceptions that leave \<open>main\<close>: \<open>main\<close> logs them and raises them again, which
  ends the run.
\<close>

datatype error = ConfigError | DriveServiceError | LedgerError | DateError | UploadError | EmailError

datatype status = Continue | Raised error

text \<open>
  \<open>dateutil.parser.parse\<close> gives a time with or without a time zone, or raises.
  Times are microseconds since the epoch. Comparing a time without a zone to
  \<open>CUTOFF_DATE\<close>, which has one, raises \<open>TypeError\<close>.
\<close>

datatype parsed_date = ParseError | Naive int | Aware int

definition CUTOFF_DATE :: int where
  "CUTOFF_DATE = 1738281600000000"

datatype upload = UploadFailed | Uploaded "pystr option"

text \<open>
  What the world does while \<open>main\<close> handles one publication reference: the answer to
  the request of \<open>get_document_data\<close> in \<open>main\<close>, the world of the call of
  \<open>scrape_publication\<close>, what the date string parses to and how \<open>strftime\<close> prints it,
  whether the upload raises or which link it gives, the clock, and what the writes of
  the ledger file do: the write that makes the file anew when it is missing or no
  JSON, and the write of the new record.
\<close>

record reference_world =
  main_response :: response
  scrape :: scrape_world
  parsed :: parsed_date
  date_text :: pystr
  uploaded :: upload
  now :: pystr
  recreate_write :: write_result
  save_write :: write_result

record run_state =
  ledger :: ledger_file
  new_books :: "book_info list"

text \<open>
  The body of the loop \<open>for pub_url in publications\<close>. \<open>Continue\<close> stands for going
  on with the next reference (the \<open>continue\<close> statements and the end of the body).
\<close>

definition process_reference :: "ucd \<Rightarrow> pystr \<Rightarrow> reference_world \<Rightarrow> run_state \<Rightarrow> status \<times> run_state" where
  "process_reference U handle w s =
     (case get_document_data (main_response w) of
        None \<Rightarrow> (Continue, s)
      | Some doc_data \<Rightarrow>
          let pub_id = publication_id doc_data
          in (case is_publication_processed pub_id (recreate_write w) (ledger s) of
                (None, f) \<Rightarrow> (Raised LedgerError, s\<lparr>ledger := f\<rparr>)
              | (Some True, f) \<Rightarrow> (Continue, s\<lparr>ledger := f\<rparr>)
              | (Some False, f) \<Rightarrow>
                  let s = s\<lparr>ledger := f\<rparr>
                  in (case originalPublishDateInISOString doc_data of
                        None \<Rightarrow> (Continue, s)
                      | Some pub_date_str \<Rightarrow>
                          if pub_date_str = [] then (Continue, s)
                          else
                            (case parsed w of
                               ParseError \<Rightarrow> (Raised DateError, s)
                             | Naive t \<Rightarrow> (Raised DateError, s)
                             | Aware pub_date \<Rightarrow>
                                 if pub_date \<le> CUTOFF_DATE then (Continue, s)
                                 else if \<not> returned (scrape_publication U handle (scrape w))
                                 then (Continue, s)
                                 else
                                   (case uploaded w of
                                      UploadFailed \<Rightarrow> (Raised UploadError, s)
                                    | Uploaded web_link \<Rightarrow>
                                        let book =
                                              \<lparr> book_title = title doc_data,
                                                book_handle = handle,
                                                publish_date = date_text w,
                                                book_page_count = page_count doc_data,
                                                book_publication_id = pub_id,
                                                drive_link = web_link \<rparr>;
                                            s = s\<lparr>new_books := new_books s @ [book]\<rparr>
                                        in (case save_processed_publication pub_id book (now w)
                                                   (recreate_write w) (save_write w) (ledger s) of
                                              (False, f') \<Rightarrow> (Raised LedgerError, s\<lparr>ledger := f'\<rparr>)
                                            | (True, f') \<Rightarrow> (Continue, s\<lparr>ledger := f'\<rparr>)))))))"

text \<open>The loop over the references of one handle: an exception ends it.\<close>

fun process_publications :: "ucd \<Rightarrow> pystr \<Rightarrow> reference_world list \<Rightarrow> run_state \<Rightarrow> status \<times> run_state" where
  "process_publications U handle [] s = (Continue, s)"
| "process_publications U handle (w # ws) s =
     (case process_reference U handle w s of
        (Raised e, s') \<Rightarrow> (Raised e, s')
      | (Continue, s') \<Rightarrow> process_publications U handle ws s')"

text \<open>
  The loop \<open>for handle in config['issuu_handles']\<close>; each handle comes with the
  references that \<open>get_publications\<close> finds for it.
\<close>

fun process_handles :: "ucd \<Rightarrow> (pystr \<times> reference_world list) list \<Rightarrow> run_state \<Rightarrow> status \<times> run_state" where
  "process_handles U [] s = (Continue, s)"
| "process_handles U ((handle, publications) # hs) s =
     (case process_publications U handle publications s of
        (Raised e, s') \<Rightarrow> (Raised e, s')
      | (Continue, s') \<Rightarrow> process_handles U hs s')"

text \<open>
  What the world does during a run: whether the configuration loads, whether the Drive
  service can be built, the handles of the configuration with their references, and
  whether the email can be sent.
\<close>

record main_world =
  config_ok :: bool
  drive_service_ok :: bool
  issuu_handles :: "(pystr \<times> reference_world list) list"
  email_ok :: bool

text \<open>
  A run: how it ended, the ledger file it leaves, and the books of the email that was
  sent, if one was.
\<close>

record run =
  ended :: status
  ledger_after :: ledger_file
  notified :: "book_info list option"

definition main :: "ucd \<Rightarrow> main_world \<Rightarrow> ledger_file \<Rightarrow> run" where
  "main U w f =
     (if \<not> config_ok w then \<lparr> ended = Raised ConfigError, ledger_after = f, notified = None \<rparr>
      else if \<not> drive_service_ok w
      then \<lparr> ended = Raised DriveServiceError, ledger_after = f, notified = None \<rparr>
      else
        (case process_handles U (issuu_handles w) \<lparr> ledger = f, new_books = [] \<rparr> of
           (Raised e, s) \<Rightarrow> \<lparr> ended = Raised e, ledger_after = ledger s, notified = None \<rparr>
         | (Continue, s) \<Rightarrow>
             if new_books s \<noteq> []
             then if email_ok w
                  then \<lparr> ended = Continue, ledger_after = ledger s, notified = Some (new_books s) \<rparr>
                  else \<lparr> ended = Raised EmailError, ledger_after = ledger s, notified = None \<rparr>
             else \<lparr> ended = Continue, ledger_after = ledger s, notified = None \<rparr>))"

section \<open>Notions used in the statements\<close>

subsection \<open>Collapsed strings\<close>

text \<open>
  A string in which every character of the class \<open>P\<close> is the character \<open>r\<close> and no two
  characters of the class are adjacent: the strings that \<open>re_sub_runs P r\<close> leaves as
  they are.
\<close>

fun collapsed :: "(codepoint \<Rightarrow> bool) \<Rightarrow> codepoint \<Rightarrow> pystr \<Rightarrow> bool" where
  "collapsed P r [] = True"
| "collapsed P r (c # s) = ((P c \<longrightarrow> c = r \<and> (s \<noteq> [] \<longrightarrow> \<not> P (hd s))) \<and> collapsed P r s)"

subsection \<open>Worlds for the evaluations\<close>

text \<open>
  A document with a title that needs no sanitizing, a revision id and a date after the
  cutoff; a call of \<open>scrape_publication\<close> that gets it, with a given schedule and given
  results of the page fetches, an empty image directory and a PDF that can be written.
\<close>

definition sample_document :: "pystr \<Rightarrow> int \<Rightarrow> document" where
  "sample_document pub_id n =
     \<lparr> publicationId = Val pub_id, pageCount = Val n, doc_title = Val (py ''A''),
       revisionId = Val (py ''r1''), publishDate = Val (py ''2025-03-01T00:00:00Z''),
       other_keys = True \<rparr>"

definition sample_scrape :: "document \<Rightarrow> nat list \<Rightarrow> (int \<Rightarrow> bool) \<Rightarrow> (int \<Rightarrow> bool) \<Rightarrow> scrape_world" where
  "sample_scrape d ks ok1 ok2 =
     \<lparr> response = Document d, makedirs_ok = True, schedule = ks, pool_ok = ok1,
       second_ok = ok2, old_images = [], convert_ok = True \<rparr>"

subsection \<open>Completion of the pipeline\<close>

text \<open>
  A reference reaches the upload when its document data resolve, its publication is
  not in the ledger, it has a date after the cutoff, and \<open>scrape_publication\<close> returns
  \<open>True\<close> (the pages were fetched and the PDF assembled). The pipeline is completed
  when, moreover, the upload returns.
\<close>

definition reaches_upload :: "ucd \<Rightarrow> pystr \<Rightarrow> reference_world \<Rightarrow> run_state \<Rightarrow> bool" where
  "reaches_upload U handle w s =
     (case get_document_data (main_response w) of
        None \<Rightarrow> False
      | Some doc_data \<Rightarrow>
          fst (is_publication_processed (publication_id doc_data) (recreate_write w) (ledger s))
            = Some False \<and>
          (case originalPublishDateInISOString doc_data of
             None \<Rightarrow> False
           | Some pub_date_str \<Rightarrow>
               pub_date_str \<noteq> [] \<and>
               (case parsed w of Aware pub_date \<Rightarrow> CUTOFF_DATE < pub_date | _ \<Rightarrow> False)) \<and>
          returned (scrape_publication U handle (scrape w)))"

definition pipeline_completed :: "ucd \<Rightarrow> pystr \<Rightarrow> reference_world \<Rightarrow> run_state \<Rightarrow> bool" where
  "pipeline_completed U handle w s = (reaches_upload U handle w s \<and> uploaded w \<noteq> UploadFailed)"

text \<open>
  A reference for which everything up to the upload succeeds and the ledger file can
  be written, with a given result of the upload; and a run over three such
  references, of which the second's upload fails.
\<close>

definition sample_reference :: "pystr \<Rightarrow> upload \<Rightarrow> reference_world" where
  "sample_reference pub_id up =
     \<lparr> main_response = Document (sample_document pub_id 1),
       scrape = sample_scrape (sample_document pub_id 1) [] (\<lambda>p. True) (\<lambda>p. True),
       parsed = Aware 1740787200000000,
       date_text = py ''2025-03-01'',
       uploaded = up,
       now = py ''2025-03-02T10:00:00'',
       recreate_write = Written,
       save_write = Written \<rparr>"

definition sample_run :: main_world where
  "sample_run =
     \<lparr> config_ok = True, drive_service_ok = True,
       issuu_handles =
         [(py ''h'',
           [sample_reference (py ''p0'') (Uploaded (Some (py ''link0''))),
            sample_reference (py ''p1'') UploadFailed,
            sample_reference (py ''p2'') (Uploaded (Some (py ''link2'')))])],
       email_ok = True \<rparr>"

section \<open>Properties of the sanitizer\<close>

lemma set_replace: "set (replace k r s) \<subseteq> (set s - {k}) \<union> set r"
  by (induction s) (auto simp: replace_def)

lemma set_replace_all:
  "set (replace_all m s) \<subseteq> (set s - fst ` set m) \<union> (\<Union>kr \<in> set m. set (snd kr))"
proof (induction m arbitrary: s)
  case Nil
  then show ?case by simp
next
  case (Cons kr m)
  obtain k r where kr: "kr = (k, r)" by (cases kr)
  have "set (replace_all m (replace k r s))
          \<subseteq> (set (replace k r s) - fst ` set m) \<union> (\<Union>kr \<in> set m. set (snd kr))"
    by (rule Cons.IH)
  with set_replace [of k r s] show ?case
    unfolding kr by auto
qed

lemma char_map_keys:
  "fst ` set char_map =
     {60, 62, 58, 34, 47, 92, 124, 63, 42, 38, 35, 37, 123, 125, 126, 43, 64, 33, 96, 61, 59, 91, 93}"
  by (simp add: char_map_def ord_def py_def)

lemma char_map_values:
  "(\<Union>kr \<in> set char_map. set (snd kr)) =
     {40, 41, 45, 39, 97, 110, 100, 78, 111, 46, 112, 99, 116, 108, 117, 115, 44}"
  by (auto simp add: char_map_def ord_def py_def)

lemma set_re_sub_runs: "set (re_sub_runs P r s) \<subseteq> {c \<in> set s. \<not> P c} \<union> {r}"
proof (induction P r s rule: re_sub_runs.induct)
  case (1 P r)
  then show ?case by simp
next
  case (2 P r c cs)
  have "set (dropWhile P cs) \<subseteq> set cs" by (rule set_dropWhileD [THEN subsetI])
  with 2 show ?case by auto
qed

lemma set_re_sub_runs_same: "set (re_sub_runs (\<lambda>c. c = r) r s) \<subseteq> set s"
proof (induction "\<lambda>c. c = r" r s rule: re_sub_runs.induct)
  case (1 r)
  then show ?case by simp
next
  case (2 r c cs)
  have "set (dropWhile (\<lambda>c. c = r) cs) \<subseteq> set cs" by (rule set_dropWhileD [THEN subsetI])
  with 2 show ?case by auto
qed

lemma set_strip: "set (strip C s) \<subseteq> set s"
  unfolding strip_def by (auto dest!: set_dropWhileD)

lemma splitext_append: "fst (splitext s) @ snd (splitext s) = s"
  by (simp add: splitext_def Let_def)

lemma set_slice_to: "set (slice_to s k) \<subseteq> set s"
  by (auto simp: slice_to_def dest: in_set_takeD)

lemma set_limit_length: "set (limit_length s) \<subseteq> set s"
proof (cases "length s > 255")
  case True
  have "set (fst (splitext s)) \<union> set (snd (splitext s)) = set s"
    using splitext_append [of s] by (metis set_append)
  with set_slice_to [of "fst (splitext s)"] True show ?thesis
    by (auto simp: limit_length_def split_beta)
next
  case False
  then show ?thesis by (simp add: limit_length_def)
qed


lemma replace_all_no_key:
  assumes "c \<in> set (replace_all char_map s)"
  shows "c \<notin> fst ` set char_map"
proof
  assume k: "c \<in> fst ` set char_map"
  from assms set_replace_all [of char_map s]
  have "c \<in> (\<Union>kr \<in> set char_map. set (snd kr))" using k by blast
  with k show False
    unfolding char_map_keys char_map_values by auto
qed

lemma clean_chars:
  assumes "c \<in> set (clean U x)"
  shows "c \<notin> fst ` set char_map \<and> (isprintable U c \<or> c = ord CHR '' '')"
proof -
  define c2 where "c2 = replace_all char_map (filter (\<lambda>c. combining U c = 0) (normalize_NFKD U x))"
  define c3 where "c3 = filter (isprintable U) c2"
  define c4 where "c4 = re_sub_runs (isspace U) (ord CHR '' '') c3"
  define c5 where "c5 = re_sub_runs (\<lambda>c. c = ord CHR ''-'') (ord CHR ''-'') c4"
  have cl: "clean U x = strip {ord CHR '' '', ord CHR ''-''} c5"
    by (simp add: clean_def c2_def c3_def c4_def c5_def)
  from assms cl have "c \<in> set c5" using set_strip by fastforce
  then have "c \<in> set c4" unfolding c5_def using set_re_sub_runs_same by fastforce
  then have "c \<in> set c3 \<or> c = ord CHR '' ''" unfolding c4_def using set_re_sub_runs by fastforce
  moreover have "ord CHR '' '' \<notin> fst ` set char_map"
    unfolding char_map_keys by (simp add: ord_def)
  moreover have "c \<in> set c3 \<Longrightarrow> isprintable U c \<and> c \<notin> fst ` set char_map"
    unfolding c3_def c2_def using replace_all_no_key by auto
  ultimately show ?thesis by auto
qed

lemma fallback_no_key: "set (py ''unnamed_document'') \<inter> fst ` set char_map = {}"
  unfolding char_map_keys by (simp add: py_def ord_def)

text \<open>
  Claim C6. \<open>sanitize_filename\<close> is a function of its input (total and deterministic);
  for every input string its result is not empty, contains no key of the substitution
  table and no character that is not printable. The two facts of the Unicode tables
  that this rests on are hypotheses: the space and the characters of the fallback name
  are printable.
\<close>

theorem sanitize_filename_safe:
  assumes "isprintable U (ord CHR '' '')"
      and "\<forall>c \<in> set (py ''unnamed_document''). isprintable U c"
  shows "sanitize_filename U x \<noteq> [] \<and>
         set (sanitize_filename U x) \<inter> fst ` set char_map = {} \<and>
         (\<forall>c \<in> set (sanitize_filename U x). isprintable U c)"
proof (cases "limit_length (clean U x) = []")
  case True
  then have "sanitize_filename U x = py ''unnamed_document''"
    by (simp add: sanitize_filename_def)
  with assms(2) fallback_no_key show ?thesis by (simp add: py_def)
next
  case False
  then have eq: "sanitize_filename U x = limit_length (clean U x)"
    by (simp add: sanitize_filename_def)
  have "\<And>c. c \<in> set (limit_length (clean U x)) \<Longrightarrow>
          c \<notin> fst ` set char_map \<and> isprintable U c"
    using set_limit_length [of "clean U x"] clean_chars [of _ U x] assms(1) by blast
  with False eq show ?thesis by auto
qed

theorem sanitize_filename_safe_witness:
  "isprintable ucd_sample (ord CHR '' '') \<and>
   list_all (isprintable ucd_sample) (py ''unnamed_document'') \<and>
   sanitize_filename ucd_sample (py ''Issuu: Guide #1 <Draft>'') = py ''Issuu- Guide No.1 (Draft)'' \<and>
   set (py ''Issuu- Guide No.1 (Draft)'') \<inter> fst ` set char_map = {} \<and>
   list_all (isprintable ucd_sample) (py ''Issuu- Guide No.1 (Draft)'')"
proof -
  have h1: "isprintable ucd_sample (ord CHR '' '')"
    by (simp add: ucd_sample_def ord_def)
  have h2: "\<forall>c \<in> set (py ''unnamed_document''). isprintable ucd_sample c"
    by (simp add: ucd_sample_def ord_def py_def)
  have ev: "sanitize_filename ucd_sample (py ''Issuu: Guide #1 <Draft>'') = py ''Issuu- Guide No.1 (Draft)''"
    by code_simp
  from sanitize_filename_safe [OF h1 h2, of "py ''Issuu: Guide #1 <Draft>''"] h1 h2 ev
  show ?thesis by (simp add: list_all_iff)
qed

lemma re_sub_runs_Nil_iff: "re_sub_runs P r s = [] \<longleftrightarrow> s = []"
  by (cases s) auto

lemma hd_re_sub_runs: "s \<noteq> [] \<Longrightarrow> \<not> P (hd s) \<Longrightarrow> hd (re_sub_runs P r s) = hd s"
  by (cases s) auto

lemma hd_re_sub_runs_same: "s \<noteq> [] \<Longrightarrow> hd (re_sub_runs (\<lambda>c. c = q) q s) = hd s"
  by (cases s) auto

lemma collapsed_fixpoint: "collapsed P r s \<Longrightarrow> re_sub_runs P r s = s"
proof (induction s)
  case Nil
  then show ?case by simp
next
  case (Cons c s)
  show ?case
  proof (cases "P c")
    case True
    with Cons.prems have "dropWhile P s = s" by (cases s) auto
    with True Cons show ?thesis by simp
  next
    case False
    with Cons show ?thesis by simp
  qed
qed

lemma collapsed_re_sub_runs: "collapsed P r (re_sub_runs P r s)"
proof (induction P r s rule: re_sub_runs.induct)
  case (1 P r)
  then show ?case by simp
next
  case (2 P r c cs)
  show ?case
  proof (cases "P c")
    case True
    define t where "t = dropWhile P cs"
    have t: "t \<noteq> [] \<Longrightarrow> \<not> P (hd t)"
      unfolding t_def by (rule hd_dropWhile)
    have "re_sub_runs P r t \<noteq> [] \<Longrightarrow> \<not> P (hd (re_sub_runs P r t))"
      using t hd_re_sub_runs [of t P r] by (simp add: re_sub_runs_Nil_iff)
    with True 2 show ?thesis by (simp add: t_def)
  next
    case False
    with 2 show ?thesis by simp
  qed
qed

lemma collapsed_append: "collapsed P r (xs @ ys) \<Longrightarrow> collapsed P r xs \<and> collapsed P r ys"
  by (induction xs) (auto simp: hd_append split: if_splits)

lemma collapsed_dropWhile: "collapsed P r s \<Longrightarrow> collapsed P r (dropWhile Q s)"
  using collapsed_append [of P r "takeWhile Q s" "dropWhile Q s"] by simp

lemma rev_dropWhile_rev: "rev (dropWhile Q (rev s)) @ rev (takeWhile Q (rev s)) = s"
proof -
  have "rev (takeWhile Q (rev s) @ dropWhile Q (rev s)) = s" by simp
  then show ?thesis by (simp only: rev_append)
qed

lemma collapsed_strip: "collapsed P r s \<Longrightarrow> collapsed P r (strip C s)"
proof -
  assume a: "collapsed P r s"
  define t where "t = dropWhile (\<lambda>c. c \<in> C) s"
  have "collapsed P r t" unfolding t_def using a by (rule collapsed_dropWhile)
  then have "collapsed P r (rev (dropWhile (\<lambda>c. c \<in> C) (rev t)) @ rev (takeWhile (\<lambda>c. c \<in> C) (rev t)))"
    by (simp only: rev_dropWhile_rev)
  then show ?thesis unfolding strip_def t_def by (blast dest: collapsed_append)
qed

lemma collapsed_re_sub_runs_same:
  "collapsed P r s \<Longrightarrow> collapsed P r (re_sub_runs (\<lambda>c. c = q) q s)"
proof (induction "\<lambda>c. c = q" q s rule: re_sub_runs.induct)
  case (1 q)
  then show ?case by simp
next
  case (2 q c cs)
  show ?case
  proof (cases "c = q")
    case True
    define t where "t = dropWhile (\<lambda>c. c = q) cs"
    from "2.prems" have cs: "collapsed P r cs" by simp
    then have "collapsed P r t" unfolding t_def by (rule collapsed_dropWhile)
    with 2 True have ih: "collapsed P r (re_sub_runs (\<lambda>c. c = q) q t)" by (simp add: t_def)
    have "\<not> P (hd (re_sub_runs (\<lambda>c. c = q) q t))" if pq: "P q" and ne: "t \<noteq> []"
    proof -
      from ne have "cs \<noteq> []" by (auto simp: t_def)
      with "2.prems" True pq have "\<not> P (hd cs)" by simp
      with pq have "hd cs \<noteq> q" by auto
      with \<open>cs \<noteq> []\<close> have "t = cs" unfolding t_def by (cases cs) auto
      with \<open>\<not> P (hd cs)\<close> ne show ?thesis by (simp add: hd_re_sub_runs_same)
    qed
    with ih "2.prems" True show ?thesis
      by (auto simp: t_def re_sub_runs_Nil_iff)
  next
    case False
    with 2 show ?thesis by (auto simp: re_sub_runs_Nil_iff hd_re_sub_runs_same)
  qed
qed

lemma strip_ends:
  "strip C s \<noteq> [] \<Longrightarrow> hd (strip C s) \<notin> C \<and> last (strip C s) \<notin> C"
proof -
  assume ne: "strip C s \<noteq> []"
  define t where "t = dropWhile (\<lambda>c. c \<in> C) s"
  define u where "u = dropWhile (\<lambda>c. c \<in> C) (rev t)"
  have st: "strip C s = rev u" by (simp add: strip_def t_def u_def)
  with ne have une: "u \<noteq> []" by simp
  then have "hd u \<notin> C" unfolding u_def using hd_dropWhile [of "\<lambda>c. c \<in> C" "rev t"] by simp
  moreover have "last u = last (rev t)"
    using une unfolding u_def
    by (metis append_Nil2 last_appendR takeWhile_dropWhile_id)
  moreover have "t \<noteq> []" using une by (auto simp: u_def)
  then have "hd t \<notin> C" unfolding t_def using hd_dropWhile [of "\<lambda>c. c \<in> C" s] by simp
  ultimately show ?thesis using une \<open>t \<noteq> []\<close> by (simp add: st hd_rev last_rev)
qed

lemma strip_id: "s = [] \<or> (hd s \<notin> C \<and> last s \<notin> C) \<Longrightarrow> strip C s = s"
proof (cases s)
  case Nil
  then show ?thesis by (simp add: strip_def)
next
  case (Cons c cs)
  assume "s = [] \<or> (hd s \<notin> C \<and> last s \<notin> C)"
  with Cons have h: "hd s \<notin> C" and l: "last s \<notin> C" by auto
  from h Cons have 1: "dropWhile (\<lambda>c. c \<in> C) s = s" by simp
  have "s \<noteq> []" using Cons by simp
  then have "hd (rev s) = last s" by (simp add: hd_rev)
  with l have "hd (rev s) \<notin> C" by simp
  then have "dropWhile (\<lambda>c. c \<in> C) (rev s) = rev s"
    using \<open>s \<noteq> []\<close> by (cases "rev s") auto
  with 1 show ?thesis by (simp add: strip_def)
qed

lemma replace_id: "k \<notin> set s \<Longrightarrow> replace k r s = s"
  by (induction s) (auto simp: replace_def)

lemma replace_all_id: "set s \<inter> fst ` set m = {} \<Longrightarrow> replace_all m s = s"
  by (induction m) (auto simp: replace_id)

lemma length_splitext: "length (fst (splitext s)) + length (snd (splitext s)) = length s"
  using splitext_append [of s] by (metis length_append)

text \<open>
  Claim C8, as amended. The length limit is the step after the substitutions, the
  collapsing and the trimming (\<open>sanitize_filename\<close> applies \<open>limit_length\<close> to the
  result of \<open>clean\<close>). It counts characters of the whole filename, not bytes of the
  name portion: a filename of at most 255 characters is left as it is; a longer one,
  whose extension has at most 255 characters, becomes the first 255 minus the length
  of the extension characters of the name portion followed by the unchanged
  extension, and the sanitized filename has at most 255 characters.
\<close>

theorem limit_length_counts_characters:
  assumes "length (snd (splitext (clean U x))) \<le> 255"
  shows "length (sanitize_filename U x) \<le> 255 \<and>
         limit_length (clean U x) =
           (if length (clean U x) \<le> 255 then clean U x
            else take (255 - length (snd (splitext (clean U x)))) (fst (splitext (clean U x)))
                 @ snd (splitext (clean U x)))"
proof -
  define s where "s = clean U x"
  define name_part where "name_part = fst (splitext s)"
  define ext_part where "ext_part = snd (splitext s)"
  have ext: "length ext_part \<le> 255" using assms by (simp add: ext_part_def s_def)
  have len: "length name_part + length ext_part = length s"
    by (simp add: name_part_def ext_part_def length_splitext)
  have lim: "limit_length s =
      (if length s \<le> 255 then s else take (255 - length ext_part) name_part @ ext_part)"
    using ext by (auto simp: limit_length_def split_beta slice_to_def name_part_def ext_part_def
        nat_diff_distrib')
  have "length (limit_length s) \<le> 255"
    using ext len unfolding lim by auto
  moreover have "length (py ''unnamed_document'') \<le> 255" by (simp add: py_def)
  ultimately have "length (sanitize_filename U x) \<le> 255"
    by (simp add: sanitize_filename_def s_def Let_def)
  with lim show ?thesis by (simp add: s_def name_part_def ext_part_def)
qed

lemma clean_plain:
  assumes "normalize_NFKD U s = s"
      and "\<forall>c \<in> set s. combining U c = 0 \<and> isprintable U c"
      and "set s \<inter> fst ` set char_map = {}"
      and "collapsed (isspace U) (ord CHR '' '') s"
      and "collapsed (\<lambda>c. c = ord CHR ''-'') (ord CHR ''-'') s"
  shows "clean U s = strip {ord CHR '' '', ord CHR ''-''} s"
proof -
  have 1: "filter (\<lambda>c. combining U c = 0) s = s" using assms(2) by (simp add: filter_id_conv)
  have 2: "replace_all char_map s = s" using assms(3) by (rule replace_all_id)
  have 3: "filter (isprintable U) s = s" using assms(2) by (simp add: filter_id_conv)
  have 4: "re_sub_runs (isspace U) (ord CHR '' '') s = s" using assms(4) by (rule collapsed_fixpoint)
  have 5: "re_sub_runs (\<lambda>c. c = ord CHR ''-'') (ord CHR ''-'') s = s"
    using assms(5) by (rule collapsed_fixpoint)
  show ?thesis by (simp add: clean_def assms(1) 1 2 3 4 5)
qed

lemma clean_collapsed:
  "collapsed (isspace U) (ord CHR '' '') (clean U x) \<and>
   collapsed (\<lambda>c. c = ord CHR ''-'') (ord CHR ''-'') (clean U x)"
  unfolding clean_def Let_def
  by (intro conjI collapsed_strip collapsed_re_sub_runs_same collapsed_re_sub_runs)

lemma clean_ends:
  "clean U x \<noteq> [] \<Longrightarrow>
     hd (clean U x) \<notin> {ord CHR '' '', ord CHR ''-''} \<and> last (clean U x) \<notin> {ord CHR '' '', ord CHR ''-''}"
  unfolding clean_def Let_def by (rule strip_ends)

lemma clean_chars_origin:
  assumes "c \<in> set (clean U x)"
  shows "c = ord CHR '' '' \<or> c \<in> (\<Union>kr \<in> set char_map. set (snd kr)) \<or>
         (c \<in> set (normalize_NFKD U x) \<and> combining U c = 0)"
proof -
  define c1 where "c1 = filter (\<lambda>c. combining U c = 0) (normalize_NFKD U x)"
  define c2 where "c2 = replace_all char_map c1"
  define c3 where "c3 = filter (isprintable U) c2"
  define c4 where "c4 = re_sub_runs (isspace U) (ord CHR '' '') c3"
  define c5 where "c5 = re_sub_runs (\<lambda>c. c = ord CHR ''-'') (ord CHR ''-'') c4"
  have cl: "clean U x = strip {ord CHR '' '', ord CHR ''-''} c5"
    by (simp add: clean_def c1_def c2_def c3_def c4_def c5_def)
  from assms cl have "c \<in> set c5" using set_strip by fastforce
  then have "c \<in> set c4" unfolding c5_def using set_re_sub_runs_same by fastforce
  then have "c \<in> set c3 \<or> c = ord CHR '' ''" unfolding c4_def using set_re_sub_runs by fastforce
  moreover have "c \<in> set c3 \<Longrightarrow> c \<in> set c2" by (simp add: c3_def)
  moreover have "c \<in> set c2 \<Longrightarrow> c \<in> set c1 \<or> c \<in> (\<Union>kr \<in> set char_map. set (snd kr))"
    unfolding c2_def using set_replace_all [of char_map c1] by blast
  moreover have "c \<in> set c1 \<Longrightarrow> c \<in> set (normalize_NFKD U x) \<and> combining U c = 0"
    by (simp add: c1_def)
  ultimately show ?thesis by blast
qed

text \<open>
  Claim C7, as amended. \<open>sanitize_filename\<close> is idempotent on every input whose cleaned
  form (before the length limit) has at most 255 characters. The facts of the Unicode
  tables that this rests on are hypotheses: there is a set \<open>S\<close> of characters that
  normalisation leaves alone and that are no combining marks, every character of a
  normal form that is no combining mark is in \<open>S\<close>, and so are the space, the characters
  of the replacements and of the fallback name; the space and the fallback name are
  printable, and the fallback name has no white space.
\<close>

theorem sanitize_filename_idempotent_unless_truncated:
  assumes stable: "\<And>s. set s \<subseteq> S \<Longrightarrow> normalize_NFKD U s = s"
      and normal: "\<And>s c. c \<in> set (normalize_NFKD U s) \<Longrightarrow> combining U c = 0 \<Longrightarrow> c \<in> S"
      and base: "\<forall>c \<in> S. combining U c = 0"
      and ascii: "{ord CHR '' ''} \<union> (\<Union>kr \<in> set char_map. set (snd kr))
                    \<union> set (py ''unnamed_document'') \<subseteq> S"
      and space: "isprintable U (ord CHR '' '')"
      and fallback: "\<forall>c \<in> set (py ''unnamed_document''). isprintable U c \<and> \<not> isspace U c"
      and short: "length (clean U x) \<le> 255"
  shows "sanitize_filename U (sanitize_filename U x) = sanitize_filename U x"
proof -
  define C where "C = {ord CHR '' '', ord CHR ''-''}"
  define r where "r = sanitize_filename U x"
  have lim: "limit_length (clean U x) = clean U x"
    using short by (simp add: limit_length_def)
  have r_eq: "r = (if clean U x = [] then py ''unnamed_document'' else clean U x)"
    by (simp add: r_def sanitize_filename_def lim)
  have len: "length r \<le> 255" and ne: "r \<noteq> []"
    using short by (auto simp: r_eq py_def)
  have inS: "set r \<subseteq> S"
  proof (cases "clean U x = []")
    case True
    with ascii show ?thesis by (auto simp: r_eq)
  next
    case False
    have "c \<in> S" if "c \<in> set (clean U x)" for c
      using clean_chars_origin [OF that] normal ascii by auto
    with False show ?thesis by (auto simp: r_eq)
  qed
  have pr: "\<forall>c \<in> set r. combining U c = 0 \<and> isprintable U c"
  proof (cases "clean U x = []")
    case True
    with fallback base inS show ?thesis by (auto simp: r_eq)
  next
    case False
    with clean_chars [of _ U x] space base inS show ?thesis by (auto simp: r_eq)
  qed
  have nk: "set r \<inter> fst ` set char_map = {}"
  proof (cases "clean U x = []")
    case True
    with fallback_no_key show ?thesis by (simp add: r_eq)
  next
    case False
    with clean_chars [of _ U x] show ?thesis by (auto simp: r_eq)
  qed
  have fb: "collapsed P q (py ''unnamed_document'')"
    if "\<forall>c \<in> set (py ''unnamed_document''). \<not> P c" for P q
    using that by (simp add: py_def)
  have "\<forall>c \<in> set (py ''unnamed_document''). c \<noteq> ord CHR ''-''"
    by (simp add: py_def ord_def)
  then have fb_dash: "collapsed (\<lambda>c. c = ord CHR ''-'') (ord CHR ''-'') (py ''unnamed_document'')"
    by (intro fb) simp
  have fb_space: "collapsed (isspace U) (ord CHR '' '') (py ''unnamed_document'')"
    using fallback by (intro fb) simp
  have col: "collapsed (isspace U) (ord CHR '' '') r \<and>
             collapsed (\<lambda>c. c = ord CHR ''-'') (ord CHR ''-'') r"
    using clean_collapsed [of U x] fb_dash fb_space by (simp add: r_eq)
  have ends: "hd r \<notin> C \<and> last r \<notin> C"
  proof (cases "clean U x = []")
    case True
    then show ?thesis by (simp add: r_eq C_def py_def ord_def)
  next
    case False
    with clean_ends [of U x] show ?thesis by (simp add: r_eq C_def)
  qed
  have "clean U r = strip C r"
    unfolding C_def using stable [OF inS] pr nk col by (intro clean_plain) auto
  also have "\<dots> = r" using ends by (intro strip_id) simp
  finally have "clean U r = r" .
  with len ne have "sanitize_filename U r = r"
    by (simp add: sanitize_filename_def limit_length_def)
  then show ?thesis by (simp add: r_def)
qed

lemma rfind_from_absent: "c \<notin> set s \<Longrightarrow> rfind_from i c s = -1"
  by (induction s arbitrary: i) (auto simp: Let_def)

lemma rfind_from_range: "0 \<le> i \<Longrightarrow> rfind_from i c s = -1 \<or> i \<le> rfind_from i c s"
proof (induction s arbitrary: i)
  case Nil
  then show ?case by simp
next
  case (Cons x s)
  from Cons.IH [of "i + 1"] Cons.prems show ?case by (auto simp: Let_def)
qed

lemma splitext_no_dot: "ord CHR ''.'' \<notin> set s \<Longrightarrow> splitext s = (s, [])"
  using rfind_from_range [of 0 "ord CHR ''/''" s]
  by (auto simp add: splitext_def rfind_def rfind_from_absent Let_def)

lemma collapsed_without: "\<forall>c \<in> set s. \<not> P c \<Longrightarrow> collapsed P r s"
  by (induction s) auto

lemma collapsed_append_without:
  "\<forall>c \<in> set xs. \<not> P c \<Longrightarrow> collapsed P r (xs @ ys) = collapsed P r ys"
  by (induction xs) auto

lemma sample_many_a:
  "sanitize_filename ucd_sample (replicate 254 (ord CHR ''a'') @ py '' b'')
     = replicate 254 (ord CHR ''a'') @ py '' ''"
proof -
  define C where "C = {ord CHR '' '', ord CHR ''-''}"
  define x where "x = replicate 254 (ord CHR ''a'') @ py '' b''"
  have set_x: "set x = {97, 32, 98}" by (auto simp: x_def py_def ord_def)
  have "clean ucd_sample x = strip C x"
    unfolding C_def
  proof (rule clean_plain)
    show "normalize_NFKD ucd_sample x = x" by (simp add: ucd_sample_def)
    show "\<forall>c \<in> set x. combining ucd_sample c = 0 \<and> isprintable ucd_sample c"
      unfolding set_x by (simp add: ucd_sample_def)
    show "set x \<inter> fst ` set char_map = {}"
      unfolding set_x char_map_keys by simp
    show "collapsed (isspace ucd_sample) (ord CHR '' '') x"
      unfolding x_def by (subst collapsed_append_without) (auto simp: ucd_sample_def ord_def py_def)
    show "collapsed (\<lambda>c. c = ord CHR ''-'') (ord CHR ''-'') x"
      by (rule collapsed_without) (simp add: set_x ord_def)
  qed
  also have "\<dots> = x"
    by (rule strip_id) (simp add: x_def C_def py_def ord_def)
  finally have cl: "clean ucd_sample x = x" .
  have len: "length x = 256" by (simp add: x_def py_def)
  have "splitext x = (x, [])"
    by (rule splitext_no_dot) (simp add: set_x ord_def)
  then have "limit_length x = take 255 x"
    by (simp add: limit_length_def len slice_to_def)
  also have "\<dots> = replicate 254 (ord CHR ''a'') @ py '' ''"
    by (simp add: x_def py_def)
  finally have "limit_length x = replicate 254 (ord CHR ''a'') @ py '' ''" .
  then show ?thesis
    by (simp add: sanitize_filename_def cl x_def [symmetric])
qed

lemma sample_many_a_again:
  "sanitize_filename ucd_sample (replicate 254 (ord CHR ''a'') @ py '' '')
     = replicate 254 (ord CHR ''a'')"
proof -
  define C where "C = {ord CHR '' '', ord CHR ''-''}"
  define y where "y = replicate 254 (ord CHR ''a'') @ py '' ''"
  have set_y: "set y = {97, 32}" by (auto simp: y_def py_def ord_def)
  have "clean ucd_sample y = strip C y"
    unfolding C_def
  proof (rule clean_plain)
    show "normalize_NFKD ucd_sample y = y" by (simp add: ucd_sample_def)
    show "\<forall>c \<in> set y. combining ucd_sample c = 0 \<and> isprintable ucd_sample c"
      unfolding set_y by (simp add: ucd_sample_def)
    show "set y \<inter> fst ` set char_map = {}"
      unfolding set_y char_map_keys by simp
    show "collapsed (isspace ucd_sample) (ord CHR '' '') y"
      unfolding y_def by (subst collapsed_append_without) (auto simp: ucd_sample_def ord_def py_def)
    show "collapsed (\<lambda>c. c = ord CHR ''-'') (ord CHR ''-'') y"
      by (rule collapsed_without) (simp add: set_y ord_def)
  qed
  also have "\<dots> = replicate 254 (ord CHR ''a'')"
    by (simp add: strip_def y_def C_def py_def ord_def)
  finally have cl: "clean ucd_sample y = replicate 254 (ord CHR ''a'')" .
  show ?thesis
    by (simp add: sanitize_filename_def cl y_def [symmetric] limit_length_def)
qed

text \<open>
  Claim C7 as stated fails: 254 letters \<open>a\<close>, a space and a \<open>b\<close> are cut to 255
  characters, which leaves the space at the end; sanitizing the result again trims
  it.
\<close>

theorem sanitize_filename_not_idempotent:
  "sanitize_filename ucd_sample
     (sanitize_filename ucd_sample (replicate 254 (ord CHR ''a'') @ py '' b''))
   \<noteq> sanitize_filename ucd_sample (replicate 254 (ord CHR ''a'') @ py '' b'')"
proof -
  have "length (replicate 254 (ord CHR ''a'')) \<noteq> length (replicate 254 (ord CHR ''a'') @ py '' '')"
    by (simp add: py_def)
  then have neq: "replicate 254 (ord CHR ''a'') \<noteq> replicate 254 (ord CHR ''a'') @ py '' ''"
    by (metis (no_types))
  show ?thesis
    unfolding sample_many_a sample_many_a_again by (rule neq)
qed

lemma rfind_from_last:
  "0 \<le> i \<Longrightarrow> c \<notin> set ys \<Longrightarrow> rfind_from i c (xs @ c # ys) = i + int (length xs)"
proof (induction xs arbitrary: i)
  case Nil
  then show ?case by (simp add: rfind_from_absent)
next
  case (Cons x xs)
  from Cons.IH [of "i + 1"] Cons.prems show ?case by (simp add: Let_def)
qed

lemma splitext_dot:
  assumes "ord CHR ''/'' \<notin> set (xs @ ys)" and "ord CHR ''.'' \<notin> set ys"
      and "\<exists>c \<in> set xs. c \<noteq> ord CHR ''.''"
  shows "splitext (xs @ ord CHR ''.'' # ys) = (xs, ord CHR ''.'' # ys)"
proof -
  have sep: "rfind (xs @ ord CHR ''.'' # ys) (ord CHR ''/'') = -1"
    unfolding rfind_def using assms(1) by (intro rfind_from_absent) (auto simp: ord_def)
  have dot: "rfind (xs @ ord CHR ''.'' # ys) (ord CHR ''.'') = int (length xs)"
    unfolding rfind_def using assms(2) rfind_from_last [of 0 "ord CHR ''.''" ys xs] by simp
  show ?thesis
    using assms(3) by (simp add: splitext_def sep dot)
qed

lemma sample_long_pdf:
  "clean ucd_sample (replicate 300 (ord CHR ''a'') @ py ''.pdf'')
     = replicate 300 (ord CHR ''a'') @ py ''.pdf''"
proof -
  define C where "C = {ord CHR '' '', ord CHR ''-''}"
  define x where "x = replicate 300 (ord CHR ''a'') @ py ''.pdf''"
  have set_x: "set x = {97, 46, 112, 100, 102}" by (auto simp: x_def py_def ord_def)
  have "clean ucd_sample x = strip C x"
    unfolding C_def
  proof (rule clean_plain)
    show "normalize_NFKD ucd_sample x = x" by (simp add: ucd_sample_def)
    show "\<forall>c \<in> set x. combining ucd_sample c = 0 \<and> isprintable ucd_sample c"
      unfolding set_x by (simp add: ucd_sample_def)
    show "set x \<inter> fst ` set char_map = {}"
      unfolding set_x char_map_keys by simp
    show "collapsed (isspace ucd_sample) (ord CHR '' '') x"
      by (rule collapsed_without) (simp add: set_x ucd_sample_def)
    show "collapsed (\<lambda>c. c = ord CHR ''-'') (ord CHR ''-'') x"
      by (rule collapsed_without) (simp add: set_x ord_def)
  qed
  also have "\<dots> = x"
    by (rule strip_id) (simp add: x_def C_def py_def ord_def)
  finally show ?thesis unfolding x_def .
qed

lemma sample_long_pdf_split:
  "splitext (replicate 300 (ord CHR ''a'') @ py ''.pdf'')
     = (replicate 300 (ord CHR ''a''), py ''.pdf'')"
proof -
  have "splitext (replicate 300 (ord CHR ''a'') @ ord CHR ''.'' # py ''pdf'')
          = (replicate 300 (ord CHR ''a''), ord CHR ''.'' # py ''pdf'')"
    by (rule splitext_dot) (simp_all add: py_def ord_def)
  then show ?thesis by (simp add: py_def)
qed

theorem limit_length_counts_characters_witness:
  "length (snd (splitext (clean ucd_sample (replicate 300 (ord CHR ''a'') @ py ''.pdf'')))) \<le> 255 \<and>
   sanitize_filename ucd_sample (replicate 300 (ord CHR ''a'') @ py ''.pdf'')
     = replicate 251 (ord CHR ''a'') @ py ''.pdf''"
proof -
  have h: "length (snd (splitext (clean ucd_sample (replicate 300 (ord CHR ''a'') @ py ''.pdf'')))) \<le> 255"
    unfolding sample_long_pdf sample_long_pdf_split by (simp add: py_def)
  from limit_length_counts_characters [OF h]
  have "limit_length (clean ucd_sample (replicate 300 (ord CHR ''a'') @ py ''.pdf''))
          = replicate 251 (ord CHR ''a'') @ py ''.pdf''"
    unfolding sample_long_pdf sample_long_pdf_split by (simp add: py_def)
  then have "sanitize_filename ucd_sample (replicate 300 (ord CHR ''a'') @ py ''.pdf'')
          = replicate 251 (ord CHR ''a'') @ py ''.pdf''"
    by (simp add: sanitize_filename_def py_def)
  with h show ?thesis by simp
qed

text \<open>
  Claim C8 as stated fails: a name of 100 ideographs has 300 bytes in UTF-8 and only
  100 characters, and is not cut.
\<close>

theorem limit_length_not_in_bytes:
  "255 < utf8_length (fst (splitext (sanitize_filename ucd_sample (replicate 100 20013))))"
proof -
  define C where "C = {ord CHR '' '', ord CHR ''-''}"
  define z :: pystr where "z = replicate 100 20013"
  have set_z: "set z = {20013}" by (auto simp: z_def)
  have "clean ucd_sample z = strip C z"
    unfolding C_def
  proof (rule clean_plain)
    show "normalize_NFKD ucd_sample z = z" by (simp add: ucd_sample_def)
    show "\<forall>c \<in> set z. combining ucd_sample c = 0 \<and> isprintable ucd_sample c"
      unfolding set_z by (simp add: ucd_sample_def)
    show "set z \<inter> fst ` set char_map = {}"
      unfolding set_z char_map_keys by simp
    show "collapsed (isspace ucd_sample) (ord CHR '' '') z"
      by (rule collapsed_without) (simp add: set_z ucd_sample_def)
    show "collapsed (\<lambda>c. c = ord CHR ''-'') (ord CHR ''-'') z"
      by (rule collapsed_without) (simp add: set_z ord_def)
  qed
  also have "\<dots> = z"
    by (rule strip_id) (simp add: z_def C_def ord_def)
  finally have cl: "clean ucd_sample z = z" .
  have san: "sanitize_filename ucd_sample z = z"
    by (simp add: sanitize_filename_def cl limit_length_def) (simp add: z_def)
  have sp: "splitext z = (z, [])"
    by (rule splitext_no_dot) (simp add: set_z ord_def)
  have "utf8_length z = 300"
    by (simp add: utf8_length_def z_def utf8_len_def sum_list_replicate)
  with san sp show ?thesis by (simp add: z_def [symmetric])
qed

theorem sanitize_filename_idempotent_unless_truncated_witness:
  "length (clean ucd_sample (py ''Issuu: Guide #1 <Draft>'')) \<le> 255 \<and>
   sanitize_filename ucd_sample (sanitize_filename ucd_sample (py ''Issuu: Guide #1 <Draft>''))
     = sanitize_filename ucd_sample (py ''Issuu: Guide #1 <Draft>'')"
proof -
  have short: "length (clean ucd_sample (py ''Issuu: Guide #1 <Draft>'')) \<le> 255"
    by code_simp
  have "sanitize_filename ucd_sample (sanitize_filename ucd_sample (py ''Issuu: Guide #1 <Draft>''))
     = sanitize_filename ucd_sample (py ''Issuu: Guide #1 <Draft>'')"
  proof (rule sanitize_filename_idempotent_unless_truncated [where S = UNIV])
    show "normalize_NFKD ucd_sample s = s" for s by (simp add: ucd_sample_def)
    show "\<forall>c \<in> UNIV. combining ucd_sample c = 0" by (simp add: ucd_sample_def)
    show "isprintable ucd_sample (ord CHR '' '')" by (simp add: ucd_sample_def ord_def)
    show "\<forall>c \<in> set (py ''unnamed_document''). isprintable ucd_sample c \<and> \<not> isspace ucd_sample c"
      by (simp add: ucd_sample_def py_def ord_def)
    show "length (clean ucd_sample (py ''Issuu: Guide #1 <Draft>'')) \<le> 255" by (rule short)
  qed simp_all
  with short show ?thesis by simp
qed

section \<open>Properties of the assembler\<close>

lemma digits_small: "n < 10 \<Longrightarrow> digits n = [48 + n]"
  by (subst digits.simps) simp

lemma digits_two: "10 \<le> n \<Longrightarrow> n < 100 \<Longrightarrow> digits n = [48 + n div 10, 48 + n mod 10]"
  by (subst digits.simps) (simp add: digits_small)

lemma digits_three:
  "100 \<le> n \<Longrightarrow> n < 1000 \<Longrightarrow> digits n = [48 + n div 100, 48 + n div 10 mod 10, 48 + n mod 10]"
  by (subst digits.simps) (simp add: digits_two div_mult2_eq [symmetric])

lemma format_03d_three:
  assumes "0 \<le> p" and "p < 1000"
  shows "format_03d p = [48 + nat p div 100, 48 + nat p div 10 mod 10, 48 + nat p mod 10]"
proof -
  define n where "n = nat p"
  have n: "n < 1000" using assms by (simp add: n_def)
  consider "n < 10" | "10 \<le> n" "n < 100" | "100 \<le> n" by linarith
  then have "zfill 3 (digits n) = [48 + n div 100, 48 + n div 10 mod 10, 48 + n mod 10]"
  proof cases
    case 1
    then show ?thesis by (simp add: digits_small zfill_def ord_def numeral_3_eq_3)
  next
    case 2
    then show ?thesis by (simp add: digits_two zfill_def ord_def)
  next
    case 3
    with n show ?thesis by (simp add: digits_three zfill_def)
  qed
  with assms show ?thesis by (simp add: format_03d_def n_def)
qed

lemma three_digits_value:
  fixes m :: nat
  shows "m = 100 * (m div 100) + 10 * (m div 10 mod 10) + m mod 10"
proof -
  have "m div 100 = m div 10 div 10" by (simp add: div_mult2_eq [symmetric])
  moreover have "m div 10 = 10 * (m div 10 div 10) + m div 10 mod 10" by simp
  moreover have "m = 10 * (m div 10) + m mod 10" by simp
  ultimately show ?thesis by linarith
qed

lemma three_digits_less:
  fixes m n :: nat
  assumes "m < n"
  shows "[48 + m div 100, 48 + m div 10 mod 10, 48 + m mod 10]
           < [48 + n div 100, 48 + n div 10 mod 10, 48 + n mod 10]"
proof -
  define a b c where "a = m div 100" and "b = m div 10 mod 10" and "c = m mod 10"
  define a' b' c' where "a' = n div 100" and "b' = n div 10 mod 10" and "c' = n mod 10"
  have m: "m = 100 * a + 10 * b + c"
    unfolding a_def b_def c_def by (rule three_digits_value)
  have n: "n = 100 * a' + 10 * b' + c'"
    unfolding a'_def b'_def c'_def by (rule three_digits_value)
  have bounds: "b < 10" "c < 10" "b' < 10" "c' < 10"
    by (simp_all add: b_def c_def b'_def c'_def)
  have "a < a' \<or> (a = a' \<and> (b < b' \<or> (b = b' \<and> c < c')))"
    using assms bounds unfolding m n by arith
  then show ?thesis
    unfolding a_def b_def c_def a'_def b'_def c'_def by auto
qed

lemma append_less_same: "(xs @ a < xs @ b) = (a < (b :: 'a::linorder list))"
  by (induction xs) auto

lemma page_file_less:
  assumes "0 \<le> p" and "p < q" and "q < 1000"
  shows "page_file p < page_file q"
proof -
  have "nat p < nat q" "nat q < 1000" using assms by auto
  then have "format_03d p < format_03d q"
    using assms by (simp only: format_03d_three three_digits_less)
  then show ?thesis
    using assms by (auto simp: page_file_def append_less_same format_03d_three)
qed

lemma sort_map_strict_mono:
  fixes f :: "'a::linorder \<Rightarrow> 'b::linorder"
  assumes "\<And>x y. x \<in> set xs \<Longrightarrow> y \<in> set xs \<Longrightarrow> x < y \<Longrightarrow> f x < f y"
  shows "sort (map f xs) = map f (sort xs)"
proof (rule properties_for_sort)
  show "mset (map f (sort xs)) = mset (map f xs)" by simp
  have "sorted_wrt (\<lambda>x y. f x \<le> f y) (sort xs)"
  proof (rule sorted_wrt_mono_rel [where P = "(\<le>)"])
    show "sorted_wrt (\<le>) (sort xs)" by simp
    fix x y assume "x \<in> set (sort xs)" "y \<in> set (sort xs)" "x \<le> y"
    then show "f x \<le> f y" using assms [of x y] by (auto simp: le_less)
  qed
  then show "sorted (map f (sort xs))" by (simp add: sorted_map)
qed

lemma sort_cong_mset:
  fixes xs ys :: "'a::linorder list"
  shows "mset xs = mset ys \<Longrightarrow> sort xs = sort ys"
  by (rule properties_for_sort) simp_all

lemma page_file_jpg: "endswith (page_file p) (py ''.jpg'')"
  by (simp add: endswith_def page_file_def py_def)
  
lemma path_join_page_file:
  "path_join a (page_file p) =
     (if a = [] \<or> last a = ord CHR ''/'' then a else a @ [ord CHR ''/'']) @ page_file p"
  by (simp add: path_join_def page_file_def py_def ord_def)

text \<open>
  Up to page 999 the order is the numeric one. Whatever the order in which the
  directory lists them, when the \<open>.jpg\<close> files of the image directory are the images
  of a non-empty collection of pages numbered from 1 to 999, \<open>create_pdf\<close> puts them
  into the PDF in ascending order of page number (provided the PDF can be written).
\<close>

theorem create_pdf_in_page_order:
  assumes "set pages \<subseteq> {1..999}" and "pages \<noteq> []"
      and "mset (filter (\<lambda>f. endswith f (py ''.jpg'')) listing) = mset (map page_file pages)"
  shows "create_pdf image_folder listing ok =
           (if ok
            then Some (map (\<lambda>p. path_join image_folder (page_file p)) (sort pages))
            else None)"
proof -
  define g where "g = (\<lambda>p. path_join image_folder (page_file p))"
  have mono: "g p < g q" if "p \<in> set pages" "q \<in> set pages" "p < q" for p q
  proof -
    from that assms(1) have "0 \<le> p" "q < 1000" by auto
    with that(3) have "page_file p < page_file q" by (intro page_file_less)
    then show ?thesis by (simp add: g_def path_join_page_file append_less_same)
  qed
  have "image_mset (path_join image_folder) (mset (filter (\<lambda>f. endswith f (py ''.jpg'')) listing))
          = image_mset (path_join image_folder) (mset (map page_file pages))"
    by (simp only: assms(3))
  then have "mset (map (path_join image_folder) (filter (\<lambda>f. endswith f (py ''.jpg'')) listing))
          = mset (map (path_join image_folder) (map page_file pages))"
    by (simp only: mset_map)
  also have "map (path_join image_folder) (map page_file pages) = map g pages"
    by (simp add: g_def)
  finally have "mset (map (path_join image_folder) (filter (\<lambda>f. endswith f (py ''.jpg'')) listing))
          = mset (map g pages)" .
  then have "sort (map (path_join image_folder) (filter (\<lambda>f. endswith f (py ''.jpg'')) listing))
          = sort (map g pages)"
    by (rule sort_cong_mset)
  also have "\<dots> = map g (sort pages)"
    using mono by (rule sort_map_strict_mono)
  finally have files:
    "sort (map (path_join image_folder) (filter (\<lambda>f. endswith f (py ''.jpg'')) listing))
       = map g (sort pages)" .
  have "length (map g (sort pages)) = length pages" by simp
  with assms(2) have "map g (sort pages) \<noteq> []" by fastforce
  then show ?thesis
    by (simp add: create_pdf_def files g_def)
qed

theorem create_pdf_in_page_order_witness:
  "create_pdf (py ''images'') [page_file 3, py ''notes.txt'', page_file 1, page_file 2] True
     = Some [path_join (py ''images'') (page_file 1), path_join (py ''images'') (page_file 2),
             path_join (py ''images'') (page_file 3)]"
proof -
  have 1: "set [3, 1, 2] \<subseteq> {1..999 :: int}" by simp
  have 2: "[3, 1, 2 :: int] \<noteq> []" by simp
  have 3: "mset (filter (\<lambda>f. endswith f (py ''.jpg''))
                  [page_file 3, py ''notes.txt'', page_file 1, page_file 2])
             = mset (map page_file [3, 1, 2])"
    by (simp add: page_file_jpg) (simp add: endswith_def py_def ord_def)
  from create_pdf_in_page_order [OF 1 2 3, of "py ''images''" True]
  show ?thesis by simp
qed

text \<open>
  Claim C9, on the code: the names are padded so that sorting them gives the order of
  the pages, but the format \<open>03d\<close> pads to three digits only. From page 1000 on the
  lexicographic order of the names is not the numeric order: \<open>page_1000.jpg\<close> sorts
  before \<open>page_200.jpg\<close>, and the PDF has page 1000 before page 200.
\<close>

theorem create_pdf_page_1000_before_200:
  "create_pdf (py ''images'') [page_file 200, page_file 1000] True
     = Some [path_join (py ''images'') (page_file 1000), path_join (py ''images'') (page_file 200)]"
  by code_simp

section \<open>Properties of the fetch phase\<close>

lemma mset_as_completed: "mset (as_completed ks xs) = mset xs"
proof (induction ks xs rule: as_completed.induct)
  case (1 ks)
  then show ?case by simp
next
  case (2 x xs)
  then show ?case by simp
next
  case (3 k ks x xs)
  define ys where "ys = x # xs"
  define i where "i = k mod length ys"
  have i: "i < length ys" by (simp add: i_def ys_def)
  have "mset ys = mset (take i ys @ ys ! i # drop (Suc i) ys)"
    using i by (simp add: id_take_nth_drop [symmetric])
  then have "mset ys = add_mset (ys ! i) (mset (take i ys @ drop (Suc i) ys))" by simp
  moreover have "mset (as_completed ks (take i ys @ drop (Suc i) ys)) = mset (take i ys @ drop (Suc i) ys)"
    using 3 by (simp add: i_def ys_def)
  ultimately show ?case by (simp add: Let_def i_def ys_def)
qed

lemma length_as_completed: "length (as_completed ks xs) = length xs"
  using mset_as_completed [of ks xs] by (metis size_mset)

lemma set_as_completed: "set (as_completed ks xs) = set xs"
  using mset_as_completed [of ks xs] by (metis set_mset_mset)

text \<open>Every order of completion is the order of some schedule.\<close>

lemma as_completed_any_order: "mset ys = mset xs \<Longrightarrow> \<exists>ks. as_completed ks xs = ys"
proof (induction ys arbitrary: xs)
  case Nil
  then show ?case by simp
next
  case (Cons y ys)
  then have "y \<in> set xs" by (metis list.set_intros(1) set_mset_mset)
  then obtain i where i: "i < length xs" "xs ! i = y" by (auto simp: in_set_conv_nth)
  then have xs: "xs = take i xs @ y # drop (Suc i) xs" using id_take_nth_drop [of i xs] by simp
  then have "mset xs = add_mset y (mset (take i xs @ drop (Suc i) xs))"
    by (metis mset.simps(2) mset_append union_mset_add_mset_right)
  with Cons.prems have "mset ys = mset (take i xs @ drop (Suc i) xs)" by simp
  from Cons.IH [OF this] obtain ks where ks: "as_completed ks (take i xs @ drop (Suc i) xs) = ys" ..
  from i obtain x xs' where c: "xs = x # xs'" by (cases xs) auto
  have "as_completed (i # ks) (x # xs') = y # ys"
    using i ks unfolding c by (simp add: Let_def)
  then show ?case unfolding c by blast
qed

lemma first_pass_eq:
  "first_pass ok es (s, f) =
     (s + int (length (filter (\<lambda>e. ok (snd e)) es)),
      f @ map fst (filter (\<lambda>e. \<not> ok (snd e)) es))"
  by (induction es arbitrary: s f) auto

lemma map_snd_enumerate_from: "map snd (enumerate_from i xs) = xs"
  by (induction xs arbitrary: i) auto

lemma map_fst_enumerate_from: "map fst (enumerate_from i xs) = [i .. i + int (length xs) - 1]"
proof (induction xs arbitrary: i)
  case Nil
  then show ?case by simp
next
  case (Cons x xs)
  have "[i .. i + int (length (x # xs)) - 1] = i # [i + 1 .. i + 1 + int (length xs) - 1]"
    by (subst upto_rec1) (simp_all add: algebra_simps)
  with Cons show ?case by simp
qed

lemma scrape_publication_fetching:
  fixes w :: scrape_world and n :: int
  defines "es \<equiv> enumerate_from 1 (as_completed (schedule w) [1..n])"
  defines "failed \<equiv> map fst (filter (\<lambda>e. \<not> pool_ok w (snd e)) es)"
  defines "good \<equiv> filter (\<lambda>e. pool_ok w (snd e)) es"
  assumes "get_document_data (response w) = Some d"
      and "publication_id d = Some pid" and "pid \<noteq> []"
      and "title d = Some t" and "makedirs_ok w" and "page_count d = Some n"
  shows "submitted (scrape_publication U h w) = [1..n]"
    and "failed_pages (scrape_publication U h w) = failed"
    and "retried (scrape_publication U h w) = (if good = [] then [] else failed)"
    and "good = [] \<Longrightarrow> \<not> returned (scrape_publication U h w)"
    and "good = [] \<Longrightarrow> pdf (scrape_publication U h w) = None"
  using assms(4-9)
  by (simp_all add: scrape_publication_def first_pass_eq Let_def es_def failed_def good_def)

lemma failed_indices:
  fixes xs :: "int list" and ok :: "int \<Rightarrow> bool"
  defines "failed \<equiv> map fst (filter (\<lambda>e. \<not> ok (snd e)) (enumerate_from 1 xs))"
  shows "distinct failed" and "set failed \<subseteq> {1 .. int (length xs)}"
    and "length failed = length (filter (\<lambda>p. \<not> ok p) xs)"
proof -
  have d: "distinct (map fst (enumerate_from 1 xs))"
    by (simp add: map_fst_enumerate_from)
  then show "distinct failed"
    unfolding failed_def by (rule distinct_map_filter)
  have "set failed \<subseteq> set (map fst (enumerate_from 1 xs))"
    unfolding failed_def by auto
  then show "set failed \<subseteq> {1 .. int (length xs)}"
    by (simp add: map_fst_enumerate_from)
  have "length failed = length (filter (\<lambda>p. \<not> ok p) (map snd (enumerate_from 1 xs)))"
    unfolding failed_def by (simp add: filter_map comp_def)
  then show "length failed = length (filter (\<lambda>p. \<not> ok p) xs)"
    by (simp add: map_snd_enumerate_from)
qed

lemma length_filter_mset: "mset xs = mset ys \<Longrightarrow> length (filter P xs) = length (filter P ys)"
  by (metis mset_filter size_mset)

lemma count_list_distinct: "distinct xs \<Longrightarrow> count_list xs x \<le> 1"
  by (induction xs) auto

text \<open>
  Claim C5, as amended. For a publication that enters the fetch phase, one fetch is
  submitted for every page from 1 to the page count. The second pass comes after the
  loop over all completed first-pass fetches and is sequential; it runs only if at
  least one first-pass fetch succeeded, and then makes one attempt for each entry of
  the failed list, whose entries are distinct numbers between 1 and the page count, as
  many as there were failed first-pass fetches. No page number is fetched more than
  twice in a run. When every first-pass fetch fails, the method returns \<open>False\<close> and
  writes no PDF.
\<close>

theorem second_pass_once:
  assumes "get_document_data (response w) = Some d"
      and "publication_id d = Some pid" and "pid \<noteq> []"
      and "title d = Some t" and "makedirs_ok w" and "page_count d = Some n"
  shows "submitted (scrape_publication U h w) = [1..n] \<and>
         retried (scrape_publication U h w) =
           (if \<exists>p \<in> {1..n}. pool_ok w p then failed_pages (scrape_publication U h w) else []) \<and>
         length (failed_pages (scrape_publication U h w))
           = length (filter (\<lambda>p. \<not> pool_ok w p) [1..n]) \<and>
         distinct (failed_pages (scrape_publication U h w)) \<and>
         set (failed_pages (scrape_publication U h w)) \<subseteq> {1..n} \<and>
         (\<forall>p. count_list (submitted (scrape_publication U h w) @ retried (scrape_publication U h w)) p \<le> 2) \<and>
         ((\<forall>p \<in> {1..n}. \<not> pool_ok w p) \<longrightarrow>
            \<not> returned (scrape_publication U h w) \<and> pdf (scrape_publication U h w) = None)"
proof -
  define r where "r = scrape_publication U h w"
  define completed where "completed = as_completed (schedule w) [1..n]"
  define es where "es = enumerate_from 1 completed"
  define failed where "failed = map fst (filter (\<lambda>e. \<not> pool_ok w (snd e)) es)"
  define good where "good = filter (\<lambda>e. pool_ok w (snd e)) es"
  note f = scrape_publication_fetching [OF assms, of U h]
  have sub: "submitted r = [1..n]" and fp: "failed_pages r = failed"
    and re: "retried r = (if good = [] then [] else failed)"
    unfolding r_def failed_def good_def es_def completed_def using f by simp_all
  have none: "good = [] \<Longrightarrow> \<not> returned r \<and> pdf r = None"
    unfolding r_def good_def es_def completed_def using f by simp
  have "snd ` set es = set completed"
    unfolding es_def using map_snd_enumerate_from [of 1 completed] by (metis set_map)
  also have "\<dots> = {1..n}" by (simp add: completed_def set_as_completed)
  finally have snd_es: "snd ` set es = {1..n}" .
  have "good = [] \<longleftrightarrow> (\<forall>p \<in> snd ` set es. \<not> pool_ok w p)"
    by (auto simp: good_def filter_empty_conv)
  then have good: "good \<noteq> [] \<longleftrightarrow> (\<exists>p \<in> {1..n}. pool_ok w p)"
    unfolding snd_es by blast
  have len_done: "int (length completed) = (if 0 \<le> n then n else 0)"
    by (simp add: completed_def length_as_completed)
  have dist: "distinct failed" and range: "set failed \<subseteq> {1 .. int (length completed)}"
    and len: "length failed = length (filter (\<lambda>p. \<not> pool_ok w p) completed)"
    unfolding failed_def es_def by (rule failed_indices)+
  have len': "length failed = length (filter (\<lambda>p. \<not> pool_ok w p) [1..n])"
    unfolding len by (rule length_filter_mset) (simp add: completed_def mset_as_completed)
  have range': "set failed \<subseteq> {1..n}"
    using range len_done by (auto split: if_splits)
  have "count_list (submitted r @ retried r) p \<le> 2" for p
  proof -
    have "count_list (submitted r) p \<le> 1"
      unfolding sub by (rule count_list_distinct) simp
    moreover have "count_list (retried r) p \<le> 1"
      unfolding re using count_list_distinct [OF dist, of p] by simp
    ultimately show ?thesis by simp
  qed
  with sub fp re good dist range' len' none show ?thesis
    unfolding r_def [symmetric] by auto
qed

theorem second_pass_once_witness:
  "submitted (scrape_publication ucd_sample (py ''h'')
      (sample_scrape (sample_document (py ''p1'') 3) [] (\<lambda>p. p \<noteq> 2) (\<lambda>p. False))) = [1, 2, 3] \<and>
   retried (scrape_publication ucd_sample (py ''h'')
      (sample_scrape (sample_document (py ''p1'') 3) [] (\<lambda>p. p \<noteq> 2) (\<lambda>p. False))) = [2]"
proof -
  let ?w = "sample_scrape (sample_document (py ''p1'') 3) [] (\<lambda>p. p \<noteq> 2) (\<lambda>p. False)"
  let ?d = "\<lparr> publication_id = Some (py ''p1''), page_count = Some 3, title = Some (py ''A''),
              revision_id = Some (py ''r1''),
              originalPublishDateInISOString = Some (py ''2025-03-01T00:00:00Z'') \<rparr>"
  have 1: "get_document_data (response ?w) = Some ?d"
    by (simp add: sample_scrape_def sample_document_def get_document_data_def dict_nonempty_def
        dict_get_def dict_get_default_def)
  have 2: "publication_id ?d = Some (py ''p1'')" and 3: "py ''p1'' \<noteq> []"
    and 4: "title ?d = Some (py ''A'')" and 5: "makedirs_ok ?w" and 6: "page_count ?d = Some 3"
    by (simp_all add: py_def sample_scrape_def)
  have fp: "failed_pages (scrape_publication ucd_sample (py ''h'') ?w) = [2]"
    by code_simp
  have ex: "\<exists>p \<in> {1..3}. pool_ok ?w p"
    by (rule bexI [of _ 1]) (simp_all add: sample_scrape_def)
  have up: "[1..3] = [1, 2, 3 :: int]" by code_simp
  from second_pass_once [OF 1 2 3 4 5 6, of ucd_sample "py ''h''"] ex fp up
  show ?thesis by simp
qed

text \<open>
  Claim C5 as stated fails: when both pages of a publication fail in the first pass,
  the method returns before the second pass and neither page is retried.
\<close>

theorem all_pages_failed_no_retry:
  "failed_pages (scrape_publication ucd_sample (py ''h'')
      (sample_scrape (sample_document (py ''p1'') 2) [] (\<lambda>p. False) (\<lambda>p. True))) = [1, 2] \<and>
   retried (scrape_publication ucd_sample (py ''h'')
      (sample_scrape (sample_document (py ''p1'') 2) [] (\<lambda>p. False) (\<lambda>p. True))) = [] \<and>
   returned (scrape_publication ucd_sample (py ''h'')
      (sample_scrape (sample_document (py ''p1'') 2) [] (\<lambda>p. False) (\<lambda>p. True))) = False"
  by code_simp

text \<open>
  Claim C2, on the code: the number that the loop over the completed futures appends
  to \<open>failed_pages\<close> is the position of the future in the order of completion, not the
  number of its page. Of two pages, page 2 fails and completes first, page 1
  succeeds: the failed list is \<open>[1]\<close>, page 1 is fetched again in the second pass,
  page 2 is not, and the PDF has page 1 only.
\<close>

theorem failed_pages_hold_completion_index:
  "as_completed [1, 0] [1, 2 :: int] = [2, 1] \<and>
   failed_pages (scrape_publication ucd_sample (py ''h'')
      (sample_scrape (sample_document (py ''p1'') 2) [1, 0] (\<lambda>p. p = 1) (\<lambda>p. True))) = [1] \<and>
   retried (scrape_publication ucd_sample (py ''h'')
      (sample_scrape (sample_document (py ''p1'') 2) [1, 0] (\<lambda>p. p = 1) (\<lambda>p. True))) = [1] \<and>
   successful_downloads (scrape_publication ucd_sample (py ''h'')
      (sample_scrape (sample_document (py ''p1'') 2) [1, 0] (\<lambda>p. p = 1) (\<lambda>p. True))) = 2 \<and>
   map_option snd (pdf (scrape_publication ucd_sample (py ''h'')
      (sample_scrape (sample_document (py ''p1'') 2) [1, 0] (\<lambda>p. p = 1) (\<lambda>p. True))))
     = Some [py ''downloads/h/p1/images/page_001.jpg'']"
  by code_simp

text \<open>
  Claim C4, as amended. \<open>get_document_data\<close> fails exactly when no document data can
  be extracted: the request fails, the page has no initial data, the JSON does not
  parse, or the \<open>document\<close> object is missing or empty; it does not look at the fields.
  A descriptor whose publication id is missing or empty does not enter the fetch
  pipeline: \<open>scrape_publication\<close> returns \<open>False\<close> before it submits a fetch.
\<close>

theorem resolver_failure_and_id_guard:
  "(get_document_data r = None \<longleftrightarrow> (\<forall>d. r = Document d \<longrightarrow> \<not> dict_nonempty d)) \<and>
   (get_document_data (response w) = None \<or>
    (\<exists>d. get_document_data (response w) = Some d \<and>
         (publication_id d = None \<or> publication_id d = Some []))
    \<longrightarrow> \<not> returned (scrape_publication U h w) \<and> submitted (scrape_publication U h w) = [] \<and>
        retried (scrape_publication U h w) = [] \<and> pdf (scrape_publication U h w) = None)"
proof (rule conjI)
  show "get_document_data r = None \<longleftrightarrow> (\<forall>d. r = Document d \<longrightarrow> \<not> dict_nonempty d)"
    by (cases r) (simp_all add: get_document_data_def)
next
  show "get_document_data (response w) = None \<or>
    (\<exists>d. get_document_data (response w) = Some d \<and>
         (publication_id d = None \<or> publication_id d = Some []))
    \<longrightarrow> \<not> returned (scrape_publication U h w) \<and> submitted (scrape_publication U h w) = [] \<and>
        retried (scrape_publication U h w) = [] \<and> pdf (scrape_publication U h w) = None"
  proof (rule impI)
    assume "get_document_data (response w) = None \<or>
      (\<exists>d. get_document_data (response w) = Some d \<and>
           (publication_id d = None \<or> publication_id d = Some []))"
    then have "scrape_publication U h w = not_fetched w"
      by (auto simp: scrape_publication_def)
    then show "\<not> returned (scrape_publication U h w) \<and> submitted (scrape_publication U h w) = [] \<and>
          retried (scrape_publication U h w) = [] \<and> pdf (scrape_publication U h w) = None"
      by (simp add: not_fetched_def)
  qed
qed

theorem resolver_failure_and_id_guard_witness:
  "get_document_data TransportError = None \<and>
   get_document_data (Document ((sample_document [] 2)\<lparr>publicationId := Absent\<rparr>)) \<noteq> None \<and>
   submitted (scrape_publication ucd_sample (py ''h'')
      (sample_scrape ((sample_document [] 2)\<lparr>publicationId := Absent\<rparr>) [] (\<lambda>p. True) (\<lambda>p. True))) = [] \<and>
   returned (scrape_publication ucd_sample (py ''h'')
      (sample_scrape ((sample_document [] 2)\<lparr>publicationId := Absent\<rparr>) [] (\<lambda>p. True) (\<lambda>p. True))) = False"
proof -
  let ?doc = "(sample_document [] 2)\<lparr>publicationId := Absent\<rparr>"
  let ?w = "sample_scrape ?doc [] (\<lambda>p. True) (\<lambda>p. True)"
  let ?d = "\<lparr> publication_id = None, page_count = Some 2, title = Some (py ''A''),
              revision_id = Some (py ''r1''),
              originalPublishDateInISOString = Some (py ''2025-03-01T00:00:00Z'') \<rparr>"
  have d: "get_document_data (Document ?doc) = Some ?d"
    by (simp add: sample_document_def get_document_data_def dict_nonempty_def
        dict_get_def dict_get_default_def)
  then have h: "get_document_data (response ?w) = None \<or>
    (\<exists>d. get_document_data (response ?w) = Some d \<and>
         (publication_id d = None \<or> publication_id d = Some []))"
    by (simp add: sample_scrape_def)
  have t: "\<forall>d. TransportError = Document d \<longrightarrow> \<not> dict_nonempty d" by simp
  from resolver_failure_and_id_guard [of TransportError ?w ucd_sample "py ''h''"] h t d
  show ?thesis by simp
qed

text \<open>
  Claim C4 as stated fails. The resolver returns a descriptor, not a failure, when
  the publication id is missing, and one without revision id when that is missing;
  and for a descriptor without revision id \<open>scrape_publication\<close> submits the
  fetches of both pages.
\<close>

theorem descriptor_without_revision_is_fetched:
  "get_document_data (Document ((sample_document (py ''p1'') 2)\<lparr>publicationId := Absent\<rparr>)) \<noteq> None \<and>
   map_option revision_id
     (get_document_data (Document ((sample_document (py ''p1'') 2)\<lparr>revisionId := Absent\<rparr>)))
     = Some None \<and>
   submitted (scrape_publication ucd_sample (py ''h'')
      (sample_scrape ((sample_document (py ''p1'') 2)\<lparr>revisionId := Absent\<rparr>) []
         (\<lambda>p. True) (\<lambda>p. True))) = [1, 2]"
  by code_simp

section \<open>Properties of the workflow\<close>

lemma entries_Ledger: "entries (Ledger es) = es"
  by (simp add: entries_def)

lemma is_publication_processed_cases:
  "is_publication_processed pub_id wr f = (r, f') \<Longrightarrow>
     entries f' = entries f \<and>
     (r \<noteq> None \<longrightarrow> f' = Ledger (entries f) \<and> f \<noteq> Unreadable \<and> f \<noteq> WrongShape) \<and>
     (r = None \<longrightarrow> f' = f \<or> ((f = FileNotFound \<or> f = Unparseable) \<and> f' = Unparseable))"
  by (auto simp: is_publication_processed_def load_processed_publications_def write_ledger_def
      entries_def split: ledger_file.splits write_result.splits)

lemma is_publication_processed_reloaded:
  assumes "f' = f \<or> ((f = FileNotFound \<or> f = Unparseable) \<and> (f' = Ledger [] \<or> f' = Unparseable))"
  shows "fst (is_publication_processed p Written f') = fst (is_publication_processed p Written f)"
    and "(fst (is_publication_processed p wr f') = Some True)
           = (fst (is_publication_processed p wr f) = Some True)"
  using assms
  by (auto simp: is_publication_processed_def load_processed_publications_def write_ledger_def
      split: ledger_file.splits write_result.splits)

lemma is_publication_processed_True:
  "fst (is_publication_processed p wr f) = Some True \<Longrightarrow>
     \<exists>e \<in> set (entries f). entry_publication_id e = p"
  by (auto simp: is_publication_processed_def load_processed_publications_def write_ledger_def
      entries_def split: ledger_file.splits write_result.splits)

lemma save_after_check:
  "save_processed_publication pub_id meta t wr_load wr (Ledger es)
     = write_ledger wr (es @ [\<lparr> entry_publication_id = pub_id, metadata = meta, processed_at = t \<rparr>])
         (Ledger es)"
  by (simp add: save_processed_publication_def load_processed_publications_def)

lemma process_reference_not_reached:
  assumes "\<not> reaches_upload U h w s"
  shows "entries (ledger (snd (process_reference U h w s))) = entries (ledger s) \<and>
         new_books (snd (process_reference U h w s)) = new_books s \<and>
         fst (process_reference U h w s) \<noteq> Raised UploadError \<and>
         (ledger (snd (process_reference U h w s)) = ledger s \<or>
          ((ledger s = FileNotFound \<or> ledger s = Unparseable) \<and>
           (ledger (snd (process_reference U h w s)) = Ledger [] \<or>
            ledger (snd (process_reference U h w s)) = Unparseable)))"
proof (cases "get_document_data (main_response w)")
  case None
  then show ?thesis by (simp add: process_reference_def)
next
  case (Some d)
  obtain r f where ip: "is_publication_processed (publication_id d) (recreate_write w) (ledger s) = (r, f)"
    by (cases "is_publication_processed (publication_id d) (recreate_write w) (ledger s)")
  note c = is_publication_processed_cases [OF ip]
  have f: "f = ledger s \<or>
          ((ledger s = FileNotFound \<or> ledger s = Unparseable) \<and> (f = Ledger [] \<or> f = Unparseable))"
    using c by (cases "ledger s"; cases r) (auto simp: entries_def)
  show ?thesis
  proof (cases r)
    case None
    with Some ip c f show ?thesis by (simp add: process_reference_def)
  next
    case (Some b)
    with \<open>get_document_data (main_response w) = Some d\<close> ip c f assms show ?thesis
      by (cases b)
         (auto simp: process_reference_def reaches_upload_def Let_def entries_Ledger
               split: option.splits parsed_date.splits)
  qed
qed

lemma reaches_upload_checked:
  assumes "reaches_upload U h w s"
  shows "\<exists>d. get_document_data (main_response w) = Some d \<and>
             is_publication_processed (publication_id d) (recreate_write w) (ledger s)
               = (Some False, Ledger (entries (ledger s)))"
proof -
  from assms obtain d where d: "get_document_data (main_response w) = Some d"
    and r: "fst (is_publication_processed (publication_id d) (recreate_write w) (ledger s)) = Some False"
    by (auto simp: reaches_upload_def split: option.splits)
  obtain f where "is_publication_processed (publication_id d) (recreate_write w) (ledger s) = (Some False, f)"
    using r by (cases "is_publication_processed (publication_id d) (recreate_write w) (ledger s)") auto
  with is_publication_processed_cases [OF this] d show ?thesis by auto
qed

lemma process_reference_upload_failed:
  assumes "reaches_upload U h w s" and "uploaded w = UploadFailed"
  shows "process_reference U h w s = (Raised UploadError, s\<lparr>ledger := Ledger (entries (ledger s))\<rparr>)"
proof -
  from reaches_upload_checked [OF assms(1)] obtain d
    where "get_document_data (main_response w) = Some d"
      and "is_publication_processed (publication_id d) (recreate_write w) (ledger s)
             = (Some False, Ledger (entries (ledger s)))"
    by blast
  with assms show ?thesis
    by (auto simp: process_reference_def reaches_upload_def Let_def
             split: option.splits parsed_date.splits)
qed

lemma process_reference_completed:
  assumes "reaches_upload U h w s" and "uploaded w = Uploaded link"
      and "get_document_data (main_response w) = Some d"
  shows "process_reference U h w s =
           (let book = \<lparr> book_title = title d, book_handle = h, publish_date = date_text w,
                         book_page_count = page_count d, book_publication_id = publication_id d,
                         drive_link = link \<rparr>;
                record = \<lparr> entry_publication_id = publication_id d, metadata = book,
                           processed_at = now w \<rparr>
            in case save_write w of
                 Written \<Rightarrow>
                   (Continue, \<lparr> ledger = Ledger (entries (ledger s) @ [record]),
                                new_books = new_books s @ [book] \<rparr>)
               | Refused \<Rightarrow>
                   (Raised LedgerError, \<lparr> ledger = Ledger (entries (ledger s)),
                                          new_books = new_books s @ [book] \<rparr>)
               | Broken \<Rightarrow>
                   (Raised LedgerError, \<lparr> ledger = Unparseable,
                                          new_books = new_books s @ [book] \<rparr>))"
proof -
  from reaches_upload_checked [OF assms(1)] assms(3)
  have "is_publication_processed (publication_id d) (recreate_write w) (ledger s)
             = (Some False, Ledger (entries (ledger s)))"
    by auto
  with assms show ?thesis
    by (auto simp: process_reference_def reaches_upload_def Let_def save_after_check
             write_ledger_def
             split: option.splits parsed_date.splits write_result.splits)
qed

text \<open>
  Claim C1, as amended. Handling one reference appends a record for its publication
  id to the ledger if the pipeline is completed for it (resolution, fetch and assembly,
  upload) and the write of the ledger file succeeds. If the pipeline is not
  completed, whether the reference is skipped, a stage fails, or an exception ends the
  run before the ledger is written, the records of the ledger are as they were. If the
  pipeline is completed and the write of the ledger raises, the run ends with that
  exception and the ledger holds the records it had, or none when the write left the
  file truncated. In both cases no publication that was not in the ledger is in it
  afterwards, and the next run takes the publication up again.
\<close>

theorem ledger_record_iff_completed_and_written:
  "(pipeline_completed U h w s \<and> save_write w = Written \<longrightarrow>
      (\<exists>d e. get_document_data (main_response w) = Some d \<and>
             entries (ledger (snd (process_reference U h w s))) = entries (ledger s) @ [e] \<and>
             entry_publication_id e = publication_id d \<and> processed_at e = now w)) \<and>
   (\<not> pipeline_completed U h w s \<longrightarrow>
      entries (ledger (snd (process_reference U h w s))) = entries (ledger s)) \<and>
   (pipeline_completed U h w s \<and> save_write w \<noteq> Written \<longrightarrow>
      fst (process_reference U h w s) = Raised LedgerError \<and>
      entries (ledger (snd (process_reference U h w s)))
        = (if save_write w = Refused then entries (ledger s) else [])) \<and>
   (\<not> (pipeline_completed U h w s \<and> save_write w = Written) \<longrightarrow>
      (\<forall>p wr. fst (is_publication_processed p wr (ledger (snd (process_reference U h w s)))) = Some True
          \<longrightarrow> (\<exists>e \<in> set (entries (ledger s)). entry_publication_id e = p)))"
proof -
  let ?s' = "snd (process_reference U h w s)"
  have written: "\<exists>d e. get_document_data (main_response w) = Some d \<and>
             entries (ledger ?s') = entries (ledger s) @ [e] \<and>
             entry_publication_id e = publication_id d \<and> processed_at e = now w"
    if pc: "pipeline_completed U h w s" and wr: "save_write w = Written"
  proof -
    from pc have ru: "reaches_upload U h w s" and up: "uploaded w \<noteq> UploadFailed"
      by (simp_all add: pipeline_completed_def)
    from up obtain link where link: "uploaded w = Uploaded link" by (cases "uploaded w") auto
    from ru obtain d where d: "get_document_data (main_response w) = Some d"
      by (auto simp: reaches_upload_def split: option.splits)
    from process_reference_completed [OF ru link d] d wr show ?thesis
      by (simp add: Let_def entries_def)
  qed
  have unreached: "entries (ledger ?s') = entries (ledger s)"
    if npc: "\<not> pipeline_completed U h w s"
  proof (cases "reaches_upload U h w s")
    case True
    with npc have "uploaded w = UploadFailed" by (simp add: pipeline_completed_def)
    from process_reference_upload_failed [OF True this] show ?thesis
      by (simp add: entries_def)
  next
    case False
    then show ?thesis by (simp add: process_reference_not_reached)
  qed
  have unwritten: "fst (process_reference U h w s) = Raised LedgerError \<and>
      entries (ledger ?s') = (if save_write w = Refused then entries (ledger s) else [])"
    if pc: "pipeline_completed U h w s" and wr: "save_write w \<noteq> Written"
  proof -
    from pc have ru: "reaches_upload U h w s" and up: "uploaded w \<noteq> UploadFailed"
      by (simp_all add: pipeline_completed_def)
    from up obtain link where link: "uploaded w = Uploaded link" by (cases "uploaded w") auto
    from ru obtain d where d: "get_document_data (main_response w) = Some d"
      by (auto simp: reaches_upload_def split: option.splits)
    from process_reference_completed [OF ru link d] wr show ?thesis
      by (cases "save_write w") (simp_all add: Let_def entries_def)
  qed
  have no_new: "\<exists>e \<in> set (entries (ledger s)). entry_publication_id e = p"
    if n: "\<not> (pipeline_completed U h w s \<and> save_write w = Written)"
      and t: "fst (is_publication_processed p wr (ledger ?s')) = Some True" for p wr
  proof -
    have "set (entries (ledger ?s')) \<subseteq> set (entries (ledger s))"
    proof (cases "pipeline_completed U h w s")
      case True
      with n have "save_write w \<noteq> Written" by simp
      from unwritten [OF True this] show ?thesis by (auto split: if_splits)
    next
      case False
      from unreached [OF this] show ?thesis by simp
    qed
    with is_publication_processed_True [OF t] show ?thesis by blast
  qed
  from written unreached unwritten no_new show ?thesis by blast
qed

lemma sample_reference_reaches:
  "reaches_upload ucd_sample (py ''h'') (sample_reference (py ''p1'') up) \<lparr> ledger = FileNotFound, new_books = [] \<rparr>"
  by code_simp

theorem ledger_record_iff_completed_and_written_witness:
  "map entry_publication_id
     (entries (ledger (snd (process_reference ucd_sample (py ''h'')
        (sample_reference (py ''p1'') (Uploaded (Some (py ''link''))))
        \<lparr> ledger = FileNotFound, new_books = [] \<rparr>)))) = [Some (py ''p1'')] \<and>
   entries (ledger (snd (process_reference ucd_sample (py ''h'')
        (sample_reference (py ''p1'') UploadFailed)
        \<lparr> ledger = FileNotFound, new_books = [] \<rparr>))) = [] \<and>
   entries (ledger (snd (process_reference ucd_sample (py ''h'')
        ((sample_reference (py ''p1'') (Uploaded (Some (py ''link''))))\<lparr>save_write := Broken\<rparr>)
        \<lparr> ledger = FileNotFound, new_books = [] \<rparr>))) = []"
proof -
  let ?s = "\<lparr> ledger = FileNotFound, new_books = [] \<rparr>"
  let ?good = "sample_reference (py ''p1'') (Uploaded (Some (py ''link'')))"
  let ?bad = "sample_reference (py ''p1'') UploadFailed"
  let ?broken = "?good\<lparr>save_write := Broken\<rparr>"
  have 1: "pipeline_completed ucd_sample (py ''h'') ?good ?s"
    by (simp add: pipeline_completed_def sample_reference_reaches) (simp add: sample_reference_def)
  have w: "save_write ?good = Written" by (simp add: sample_reference_def)
  have 2: "\<not> pipeline_completed ucd_sample (py ''h'') ?bad ?s"
    by (simp add: pipeline_completed_def sample_reference_def)
  have 3: "pipeline_completed ucd_sample (py ''h'') ?broken ?s" by code_simp
  have b: "save_write ?broken \<noteq> Written" "save_write ?broken \<noteq> Refused" by simp_all
  have d: "get_document_data (main_response ?good)
             = Some \<lparr> publication_id = Some (py ''p1''), page_count = Some 1, title = Some (py ''A''),
                      revision_id = Some (py ''r1''),
                      originalPublishDateInISOString = Some (py ''2025-03-01T00:00:00Z'') \<rparr>"
    by (simp add: sample_reference_def sample_document_def get_document_data_def dict_nonempty_def
        dict_get_def dict_get_default_def)
  from ledger_record_iff_completed_and_written [of ucd_sample "py ''h''" ?good ?s] 1 w d
  have "map entry_publication_id
          (entries (ledger (snd (process_reference ucd_sample (py ''h'') ?good ?s)))) = [Some (py ''p1'')]"
    by (auto simp: entries_def)
  moreover
  from ledger_record_iff_completed_and_written [of ucd_sample "py ''h''" ?bad ?s] 2
  have "entries (ledger (snd (process_reference ucd_sample (py ''h'') ?bad ?s))) = []"
    by (simp add: entries_def)
  moreover
  from ledger_record_iff_completed_and_written [of ucd_sample "py ''h''" ?broken ?s] 3 b
  have "entries (ledger (snd (process_reference ucd_sample (py ''h'') ?broken ?s))) = []"
    by simp
  ultimately show ?thesis by simp
qed

text \<open>
  Claim C1 as stated fails: for a reference whose pages, PDF and upload all succeed,
  but for which the ledger file cannot be opened for writing, the exception of
  \<open>save_processed_publication\<close> ends the run, and the ledger holds no record of the
  publication though its pipeline is completed.
\<close>

theorem completed_pipeline_unrecorded:
  "pipeline_completed ucd_sample (py ''h'')
     ((sample_reference (py ''p1'') (Uploaded (Some (py ''link''))))\<lparr>save_write := Refused\<rparr>)
     \<lparr> ledger = Ledger [], new_books = [] \<rparr> \<and>
   fst (process_reference ucd_sample (py ''h'')
     ((sample_reference (py ''p1'') (Uploaded (Some (py ''link''))))\<lparr>save_write := Refused\<rparr>)
     \<lparr> ledger = Ledger [], new_books = [] \<rparr>) = Raised LedgerError \<and>
   entries (ledger (snd (process_reference ucd_sample (py ''h'')
     ((sample_reference (py ''p1'') (Uploaded (Some (py ''link''))))\<lparr>save_write := Refused\<rparr>)
     \<lparr> ledger = Ledger [], new_books = [] \<rparr>))) = []"
  by code_simp

lemma process_publications_append:
  "process_publications U h (pre @ ws) s =
     (case process_publications U h pre s of
        (Raised e, s') \<Rightarrow> (Raised e, s')
      | (Continue, s') \<Rightarrow> process_publications U h ws s')"
  by (induction pre arbitrary: s) (auto split: prod.splits status.splits)

lemma process_handles_append:
  "process_handles U (pre @ hs) s =
     (case process_handles U pre s of
        (Raised e, s') \<Rightarrow> (Raised e, s')
      | (Continue, s') \<Rightarrow> process_handles U hs s')"
  by (induction pre arbitrary: s) (auto split: prod.splits status.splits)

text \<open>
  Claim C3, as amended. When the upload fails for a reference, \<open>upload_to_drive\<close> and
  \<open>main\<close> raise the exception again: the run ends there with the upload error. The
  ledger holds the records it had before that reference, so the publication is not
  recorded; the remaining references and handles are not processed, and no
  notification is sent.
\<close>

theorem upload_failure_ends_run:
  assumes "config_ok w" and "drive_service_ok w"
      and "issuu_handles w = hs_pre @ (h, pre @ rw # post) # hs_post"
      and "process_handles U hs_pre \<lparr> ledger = f, new_books = [] \<rparr> = (Continue, s0)"
      and "process_publications U h pre s0 = (Continue, s1)"
      and "reaches_upload U h rw s1" and "uploaded rw = UploadFailed"
  shows "ended (main U w f) = Raised UploadError \<and>
         entries (ledger_after (main U w f)) = entries (ledger s1) \<and>
         notified (main U w f) = None"
proof -
  have "process_reference U h rw s1 = (Raised UploadError, s1\<lparr>ledger := Ledger (entries (ledger s1))\<rparr>)"
    using assms(6,7) by (rule process_reference_upload_failed)
  then have "process_publications U h (pre @ rw # post) s0
               = (Raised UploadError, s1\<lparr>ledger := Ledger (entries (ledger s1))\<rparr>)"
    by (simp add: process_publications_append assms(5))
  then have "process_handles U (issuu_handles w) \<lparr> ledger = f, new_books = [] \<rparr>
               = (Raised UploadError, s1\<lparr>ledger := Ledger (entries (ledger s1))\<rparr>)"
    by (simp add: assms(3) process_handles_append assms(4))
  then show ?thesis
    using assms(1,2) by (simp add: main_def entries_def)
qed

lemma sample_run_first_continues: "fst (process_publications ucd_sample (py ''h'') [sample_reference (py ''p0'') (Uploaded (Some (py ''link0'')))] \<lparr> ledger = FileNotFound, new_books = [] \<rparr>) = Continue"
  by code_simp

lemma sample_run_first_recorded: "map entry_publication_id (entries (ledger (snd (process_publications ucd_sample (py ''h'') [sample_reference (py ''p0'') (Uploaded (Some (py ''link0'')))] \<lparr> ledger = FileNotFound, new_books = [] \<rparr>)))) = [Some (py ''p0'')]"
  by code_simp

lemma sample_run_second_reaches_upload: "reaches_upload ucd_sample (py ''h'') (sample_reference (py ''p1'') UploadFailed) (snd (process_publications ucd_sample (py ''h'') [sample_reference (py ''p0'') (Uploaded (Some (py ''link0'')))] \<lparr> ledger = FileNotFound, new_books = [] \<rparr>))"
  by code_simp

text \<open>
  Claim C3 as stated fails: of three references whose pages and PDF all succeed, the
  upload of the second fails. The run ends with the upload error; the third
  publication is not recorded, though its pipeline would be completed, and no
  notification is sent for the first.
\<close>

theorem upload_failure_stops_batch:
  "ended (main ucd_sample sample_run FileNotFound) = Raised UploadError \<and>
   map entry_publication_id (entries (ledger_after (main ucd_sample sample_run FileNotFound)))
     = [Some (py ''p0'')] \<and>
   notified (main ucd_sample sample_run FileNotFound) = None \<and>
   pipeline_completed ucd_sample (py ''h'')
     (sample_reference (py ''p2'') (Uploaded (Some (py ''link2''))))
     \<lparr> ledger = ledger_after (main ucd_sample sample_run FileNotFound), new_books = [] \<rparr>"
  by code_simp

theorem upload_failure_ends_run_witness:
  "ended (main ucd_sample sample_run FileNotFound) = Raised UploadError \<and>
   map entry_publication_id (entries (ledger_after (main ucd_sample sample_run FileNotFound)))
     = [Some (py ''p0'')] \<and>
   notified (main ucd_sample sample_run FileNotFound) = None"
proof -
  let ?s0 = "\<lparr> ledger = FileNotFound, new_books = [] \<rparr>"
  let ?pre = "[sample_reference (py ''p0'') (Uploaded (Some (py ''link0'')))]"
  let ?s1 = "snd (process_publications ucd_sample (py ''h'') ?pre ?s0)"
  have 1: "config_ok sample_run" and 2: "drive_service_ok sample_run"
    by (simp_all add: sample_run_def)
  have 3: "issuu_handles sample_run
             = [] @ (py ''h'', ?pre @ sample_reference (py ''p1'') UploadFailed
                       # [sample_reference (py ''p2'') (Uploaded (Some (py ''link2'')))]) # []"
    by (simp add: sample_run_def)
  have 4: "process_handles ucd_sample [] ?s0 = (Continue, ?s0)" by simp
  have 5: "process_publications ucd_sample (py ''h'') ?pre ?s0 = (Continue, ?s1)"
    using sample_run_first_continues by (metis prod.collapse)
  have 7: "uploaded (sample_reference (py ''p1'') UploadFailed) = UploadFailed"
    by (simp add: sample_reference_def)
  from upload_failure_ends_run [OF 1 2 3 4 5 sample_run_second_reaches_upload 7]
    sample_run_first_recorded
  show ?thesis by simp
qed

lemma scrape_publication_zero_pages:
  assumes "get_document_data (response w) = Some d" and "page_count d = Some 0"
  shows "\<not> returned (scrape_publication U h w) \<and> submitted (scrape_publication U h w) = [] \<and>
         retried (scrape_publication U h w) = [] \<and> pdf (scrape_publication U h w) = None"
  using assms
  by (simp add: scrape_publication_def not_fetched_def Let_def split: option.splits)

text \<open>
  Claim C10. For a publication that resolves with a page count of 0,
  \<open>scrape_publication\<close> submits no fetch, makes no retry, writes no PDF and returns
  \<open>False\<close>; handling the reference leaves the records of the ledger and the list of
  new books as they were, so that the publication is never recorded and every run
  takes it up again.
\<close>

theorem zero_pages_not_recorded:
  assumes "get_document_data (response (scrape w)) = Some d" and "page_count d = Some 0"
  shows "\<not> returned (scrape_publication U h (scrape w)) \<and>
         submitted (scrape_publication U h (scrape w)) = [] \<and>
         retried (scrape_publication U h (scrape w)) = [] \<and>
         pdf (scrape_publication U h (scrape w)) = None \<and>
         entries (ledger (snd (process_reference U h w s))) = entries (ledger s) \<and>
         new_books (snd (process_reference U h w s)) = new_books s \<and>
         (\<forall>p. fst (is_publication_processed p Written (ledger (snd (process_reference U h w s))))
                = fst (is_publication_processed p Written (ledger s))) \<and>
         (\<forall>p wr. (fst (is_publication_processed p wr (ledger (snd (process_reference U h w s)))) = Some True)
                = (fst (is_publication_processed p wr (ledger s)) = Some True))"
proof -
  note z = scrape_publication_zero_pages [OF assms, of U h]
  then have "\<not> reaches_upload U h w s"
    by (simp add: reaches_upload_def split: option.splits)
  note n = process_reference_not_reached [OF this]
  then have r: "ledger (snd (process_reference U h w s)) = ledger s \<or>
          ((ledger s = FileNotFound \<or> ledger s = Unparseable) \<and>
           (ledger (snd (process_reference U h w s)) = Ledger [] \<or>
            ledger (snd (process_reference U h w s)) = Unparseable))"
    by simp
  note e = is_publication_processed_reloaded [OF r]
  from n z e show ?thesis by simp
qed

theorem zero_pages_not_recorded_witness:
  "get_document_data (Document (sample_document (py ''p1'') 0)) \<noteq> None \<and>
   returned (scrape_publication ucd_sample (py ''h'')
      (sample_scrape (sample_document (py ''p1'') 0) [] (\<lambda>p. True) (\<lambda>p. True))) = False \<and>
   entries (ledger (snd (process_reference ucd_sample (py ''h'')
      ((sample_reference (py ''p1'') (Uploaded None))
         \<lparr> scrape := sample_scrape (sample_document (py ''p1'') 0) [] (\<lambda>p. True) (\<lambda>p. True) \<rparr>)
      \<lparr> ledger = Ledger [], new_books = [] \<rparr>))) = []"
proof -
  let ?w = "(sample_reference (py ''p1'') (Uploaded None))
         \<lparr> scrape := sample_scrape (sample_document (py ''p1'') 0) [] (\<lambda>p. True) (\<lambda>p. True) \<rparr>"
  let ?d = "\<lparr> publication_id = Some (py ''p1''), page_count = Some 0, title = Some (py ''A''),
              revision_id = Some (py ''r1''),
              originalPublishDateInISOString = Some (py ''2025-03-01T00:00:00Z'') \<rparr>"
  have d: "get_document_data (Document (sample_document (py ''p1'') 0)) = Some ?d"
    by (simp add: sample_document_def get_document_data_def dict_nonempty_def
        dict_get_def dict_get_default_def)
  then have 1: "get_document_data (response (scrape ?w)) = Some ?d"
    by (simp add: sample_scrape_def)
  have 2: "page_count ?d = Some 0" by simp
  from zero_pages_not_recorded [OF 1 2, of ucd_sample "py ''h''" "\<lparr> ledger = Ledger [], new_books = [] \<rparr>"] d
  show ?thesis by (simp add: entries_def)
qed

end
